theory Spec2Isabelle
  imports Main "HOL-Library.Sublist" "HOL-Library.Multiset" "HOL-Library.List_Lexorder"
    "HOL-Library.Char_ord"
begin

section \<open>The data model of \<open>chre_api_to_chpp.py\<close>\<close>

text \<open>
  The script reads C struct and union declarations through a C parser, attaches JSON
  annotations to their members, builds a dependency graph of the types reachable from
  the root structures (class \<open>ApiParser\<close>) and prints C text from it (class
  \<open>CodeGenerator\<close>). Python strings are \<open>string\<close>, Python sets of type names are
  \<open>string set\<close>, and the dictionary \<open>structs_and_unions\<close>, whose iteration order
  is its insertion order, is an association list with distinct keys.
\<close>

subsection \<open>Parsed C types\<close>

text \<open>
  A parsed type has a \<open>type_spec\<close> and a tuple of declarators: the string \<open>"*"\<close>
  for a pointer, a list holding the length for an array, anything else for a function.
\<close>

datatype declarator = PointerDecl | ArrayDecl "int list" | FunctionDecl

record c_type =
  type_spec :: string
  declarators :: "declarator list"

subsection \<open>Annotations\<close>

text \<open>
  One JSON annotation object; the constructor is the value of its \<open>"annotation"\<close>
  key, the arguments are the other keys the script reads (\<open>type_override\<close>,
  \<open>value\<close>, \<open>length_field\<close>, \<open>discriminator\<close> and \<open>mapping\<close>). A value that is
  only ever printed with \<open>format\<close> is kept as the text it prints.
\<close>

datatype annotation =
    Rename_type string
  | Rewrite_type string
  | Fixed_value string
  | Var_len_array string
  | Union_variant string "(string \<times> string) list"
  | Enum_annotation
  | Other_annotation string

fun is_var_len_array :: "annotation \<Rightarrow> bool" where
  "is_var_len_array (Var_len_array _) = True"
| "is_var_len_array _ = False"

fun is_rewrite_type :: "annotation \<Rightarrow> bool" where
  "is_rewrite_type (Rewrite_type _) = True"
| "is_rewrite_type _ = False"

text \<open>
  \<open>_parse_annotations\<close>: the list \<open>struct_info\<close> of the JSON file, each element a
  structure name with its annotations (each with its \<open>field\<close>), becomes a lookup by
  structure and field that gives the annotations in the order of the file, and the empty
  list where there is none (a \<open>defaultdict\<close>).
\<close>

type_synonym struct_info_json = "string \<times> (string \<times> annotation) list"

type_synonym annotation_index = "string \<Rightarrow> string \<Rightarrow> annotation list"

definition parse_annotations :: "struct_info_json list \<Rightarrow> annotation_index" where
  "parse_annotations struct_info type_name field =
     concat (map (\<lambda>(n, anns). if n = type_name
                    then map snd (filter (\<lambda>(fld, a). fld = field) anns) else [])
                 struct_info)"

subsection \<open>Members, entries and the graph\<close>

record member_info =
  name :: string
  ctype :: c_type
  annotations :: "annotation list"
  is_nested_type :: bool
  nested_type_name :: "string option"

record entry =
  appears_in :: "string set"
  dependencies :: "string set"
  has_vla_member :: bool
  members :: "member_info list"
  is_union :: bool

type_synonym graph = "(string \<times> entry) list"

text \<open>What the script raises, as values.\<close>

datatype error =
    KeyError string
  | IndexError
  | UnknownType string
  | PointerRequiresAnnotation member_info
  | NoNewTypeName string
  | UnexpectedStructureName string
  | NestedVLA string string
  | InvalidMapping string string

text \<open>The definitions the C parser found: structs and unions, each with its members.\<close>

record parser_defs =
  structs :: "(string \<times> (string \<times> c_type) list) list"
  unions :: "(string \<times> (string \<times> c_type) list) list"

section \<open>Building the type graph (\<open>_parse_structs_and_unions\<close>)\<close>

text \<open>\<open>str.split(sep)\<close> for a separator of one character.\<close>

fun split_on :: "char \<Rightarrow> string \<Rightarrow> string list" where
  "split_on c [] = [[]]"
| "split_on c (x # xs) =
     (if x = c then [] # split_on c xs
      else (case split_on c xs of [] \<Rightarrow> [[x]] | w # ws \<Rightarrow> (x # w) # ws))"

definition is_struct_or_union_spec :: "string \<Rightarrow> bool" where
  "is_struct_or_union_spec s \<longleftrightarrow> prefix ''struct '' s \<or> prefix ''union '' s"

text \<open>
  One turn of the loop over \<open>defs['members']\<close>: the member's descriptor is appended to
  the entry, a nested type is recorded as a dependency and pushed on the work list, and
  the flag is set when the member carries a \<open>var_len_array\<close> annotation. The name of a
  nested type is \<open>type_spec.split(' ')[1]\<close>, read only when the type spec starts with
  \<open>struct\<close> or \<open>union\<close> and a space, where the split has two parts at least.
\<close>

definition parse_member ::
  "annotation_index \<Rightarrow> string \<Rightarrow> string \<times> c_type \<Rightarrow> entry \<times> string list
     \<Rightarrow> entry \<times> string list" where
  "parse_member ann type_name m st =
     (case m of (member_name, member_type) \<Rightarrow>
      case st of (e, to_parse) \<Rightarrow>
        let anns = ann type_name member_name;
            nested = (if is_struct_or_union_spec (type_spec member_type)
                      then Some (hd (tl (split_on CHR '' '' (type_spec member_type))))
                      else None);
            info = \<lparr> name = member_name, ctype = member_type, annotations = anns,
                     is_nested_type = (nested \<noteq> None), nested_type_name = nested \<rparr>;
            e1 = (case nested of
                    Some member_type_name \<Rightarrow>
                      e\<lparr> dependencies := insert member_type_name (dependencies e) \<rparr>
                  | None \<Rightarrow> e);
            e2 = e1\<lparr> members := members e1 @ [info] \<rparr>;
            e3 = (if \<not> has_vla_member e2 \<and> (\<exists>a \<in> set anns. is_var_len_array a)
                  then e2\<lparr> has_vla_member := True \<rparr> else e2)
        in (e3, case nested of
                  Some member_type_name \<Rightarrow> to_parse @ [member_type_name]
                | None \<Rightarrow> to_parse))"

definition new_entry :: "bool \<Rightarrow> entry" where
  "new_entry u = \<lparr> appears_in = {}, dependencies = {}, has_vla_member = False,
                   members = [], is_union = u \<rparr>"

definition lookup_defs :: "parser_defs \<Rightarrow> string \<Rightarrow> ((string \<times> c_type) list \<times> bool) option" where
  "lookup_defs p type_name =
     (case map_of (structs p) type_name of
        Some d \<Rightarrow> Some (d, False)
      | None \<Rightarrow> (case map_of (unions p) type_name of
                   Some d \<Rightarrow> Some (d, True)
                 | None \<Rightarrow> None))"

definition defined_names :: "parser_defs \<Rightarrow> string set" where
  "defined_names p = fst ` set (structs p) \<union> fst ` set (unions p)"

text \<open>
  The \<open>while\<close> loop over the work list. \<open>pop()\<close> takes the last element; a type that
  already has an entry is skipped; a name that is neither a struct nor a union raises.
\<close>

function parse_loop ::
  "parser_defs \<Rightarrow> annotation_index \<Rightarrow> string list \<Rightarrow> graph \<Rightarrow> error + graph" where
  "parse_loop p ann to_parse g =
     (if to_parse = [] then Inr g
      else
        let type_name = last to_parse; rest = butlast to_parse in
        if type_name \<in> fst ` set g then parse_loop p ann rest g
        else
          (case lookup_defs p type_name of
             None \<Rightarrow> Inl (UnknownType type_name)
           | Some (defs, u) \<Rightarrow>
               (case foldl (\<lambda>st m. parse_member ann type_name m st) (new_entry u, rest) defs of
                  (e, to_parse') \<Rightarrow> parse_loop p ann to_parse' (g @ [(type_name, e)]))))"
  by pat_completeness auto

lemma lookup_defs_defined:
  "lookup_defs p n = Some r \<Longrightarrow> n \<in> defined_names p"
  by (auto simp: lookup_defs_def defined_names_def split: option.splits
      dest: map_of_SomeD intro: rev_image_eqI)

termination parse_loop
proof (relation "measures [\<lambda>(p, ann, to_parse, g). card (defined_names p - fst ` set g),
                            \<lambda>(p, ann, to_parse, g). length to_parse]", goal_cases)
  case 1
  show ?case by simp
next
  case (2 p ann to_parse g x xa)
  then show ?case by (cases to_parse rule: rev_cases) auto
next
  case (3 p ann to_parse g x xa x2 xb y xc ya)
  have fin: "finite (defined_names p)" by (simp add: defined_names_def)
  from 3 have "x \<in> defined_names p" "x \<notin> fst ` set g"
    by (auto dest: lookup_defs_defined)
  then have "card (defined_names p - fst ` set (g @ [(x, xc)]))
               < card (defined_names p - fst ` set g)"
    using fin by (intro psubset_card_mono) auto
  then show ?case by simp
qed

declare parse_loop.simps [simp del]

text \<open>
  A Python set is iterated in an order the language does not fix. Wherever the script
  iterates over a set without sorting it (\<open>for d in s\<close>, \<open>list(s)\<close>) the model takes the
  order from a parameter \<open>enum\<close>, which lists a set.
\<close>

type_synonym set_order = "string set \<Rightarrow> string list"

definition lists_sets :: "set_order \<Rightarrow> bool" where
  "lists_sets enum \<longleftrightarrow> (\<forall>S. finite S \<longrightarrow> set (enum S) = S)"

definition update_entry :: "string \<Rightarrow> (entry \<Rightarrow> entry) \<Rightarrow> graph \<Rightarrow> graph" where
  "update_entry k f g = map (\<lambda>(k', e). if k' = k then (k', f e) else (k', e)) g"

text \<open>
  The reverse linkage: \<open>structs_and_unions[dependency]['appears_in'].add(type_name)\<close>
  for each dependency of each type.
\<close>

fun add_appears_in :: "string \<Rightarrow> string list \<Rightarrow> graph \<Rightarrow> error + graph" where
  "add_appears_in type_name [] g = Inr g"
| "add_appears_in type_name (d # ds) g =
     (case map_of g d of
        None \<Rightarrow> Inl (KeyError d)
      | Some _ \<Rightarrow> add_appears_in type_name ds
                   (update_entry d (\<lambda>e. e\<lparr> appears_in := insert type_name (appears_in e) \<rparr>) g))"

fun link_loop :: "set_order \<Rightarrow> string list \<Rightarrow> graph \<Rightarrow> error + graph" where
  "link_loop enum [] g = Inr g"
| "link_loop enum (k # ks) g =
     (case map_of g k of
        None \<Rightarrow> Inl (KeyError k)
      | Some e \<Rightarrow> (case add_appears_in k (enum (dependencies e)) g of
                    Inl err \<Rightarrow> Inl err
                  | Inr g' \<Rightarrow> link_loop enum ks g'))"

text \<open>
  Bubbling up \<open>has_vla_member\<close>: the inner \<open>while\<close> loop pops a type, sets its flag and
  pushes the types it appears in. Nothing stops it on a cycle, so it is a partial
  function: \<open>None\<close> is the loop that never ends.
\<close>

partial_function (option) mark_loop ::
  "set_order \<Rightarrow> string list \<Rightarrow> graph \<Rightarrow> (error + graph) option" where
  "mark_loop enum types_to_mark g =
     (if types_to_mark = [] then Some (Inr g)
      else
        (case map_of g (last types_to_mark) of
           None \<Rightarrow> Some (Inl (KeyError (last types_to_mark)))
         | Some e \<Rightarrow>
             mark_loop enum (butlast types_to_mark @ enum (appears_in e))
               (update_entry (last types_to_mark) (\<lambda>e. e\<lparr> has_vla_member := True \<rparr>) g)))"

declare mark_loop.simps [code]

fun bubble_loop :: "set_order \<Rightarrow> string list \<Rightarrow> graph \<Rightarrow> (error + graph) option" where
  "bubble_loop enum [] g = Some (Inr g)"
| "bubble_loop enum (k # ks) g =
     (case map_of g k of
        None \<Rightarrow> Some (Inl (KeyError k))
      | Some e \<Rightarrow>
          if has_vla_member e
          then (case mark_loop enum (enum (appears_in e)) g of
                  None \<Rightarrow> None
                | Some (Inl err) \<Rightarrow> Some (Inl err)
                | Some (Inr g') \<Rightarrow> bubble_loop enum ks g')
          else bubble_loop enum ks g)"

definition parse_structs_and_unions ::
  "set_order \<Rightarrow> parser_defs \<Rightarrow> annotation_index \<Rightarrow> string list \<Rightarrow> (error + graph) option" where
  "parse_structs_and_unions enum p ann root_structs =
     (case parse_loop p ann root_structs [] of
        Inl err \<Rightarrow> Some (Inl err)
      | Inr g \<Rightarrow>
          (case link_loop enum (map fst g) g of
             Inl err \<Rightarrow> Some (Inl err)
           | Inr g' \<Rightarrow> bubble_loop enum (map fst g') g'))"

section \<open>The code generator\<close>

text \<open>
  What the methods of \<open>CodeGenerator\<close> read: the annotation index and the graph of the
  parser, and from the JSON file the service name and the root structures.
\<close>

record api =
  api_annotations :: annotation_index
  structs_and_unions :: graph
  service_name :: string
  root_structs :: "string list"

text \<open>Sequencing of calls that may raise.\<close>

definition ebind :: "error + 'a \<Rightarrow> ('a \<Rightarrow> error + 'b) \<Rightarrow> error + 'b" where
  "ebind r f = (case r of Inl err \<Rightarrow> Inl err | Inr v \<Rightarrow> f v)"

definition lookup_type :: "api \<Rightarrow> string \<Rightarrow> error + entry" where
  "lookup_type a chre_type =
     (case map_of (structs_and_unions a) chre_type of
        None \<Rightarrow> Inl (KeyError chre_type)
      | Some e \<Rightarrow> Inr e)"

text \<open>\<open>format\<close> of a Python integer.\<close>

fun show_nat :: "nat \<Rightarrow> string" where
  "show_nat n =
     (if n < 10 then [char_of (48 + n)]
      else show_nat (n div 10) @ [char_of (48 + n mod 10)])"

definition show_int :: "int \<Rightarrow> string" where
  "show_int i = (if i < 0 then CHR ''-'' # show_nat (nat (- i)) else show_nat (nat i))"

subsection \<open>Header generation\<close>

definition is_array_type :: "c_type \<Rightarrow> bool" where
  "is_array_type t \<longleftrightarrow>
     (case declarators t of [ArrayDecl _] \<Rightarrow> True | _ \<Rightarrow> False)"

definition get_array_len :: "c_type \<Rightarrow> error + int" where
  "get_array_len t =
     (case declarators t of
        ArrayDecl (n # _) # _ \<Rightarrow> Inr n
      | _ \<Rightarrow> Inl IndexError)"

definition get_struct_or_union_prefix :: "api \<Rightarrow> string \<Rightarrow> error + string" where
  "get_struct_or_union_prefix a chre_type =
     ebind (lookup_type a chre_type)
       (\<lambda>e. Inr (if \<not> is_union e then ''struct '' else ''union ''))"

fun first_rename :: "annotation list \<Rightarrow> string option" where
  "first_rename [] = None"
| "first_rename (Rename_type t # anns) = Some t"
| "first_rename (_ # anns) = first_rename anns"

definition get_chpp_type_from_chre :: "api \<Rightarrow> string \<Rightarrow> error + string" where
  "get_chpp_type_from_chre a chre_type =
     ebind (get_struct_or_union_prefix a chre_type)
       (\<lambda>pre.
          case first_rename (api_annotations a chre_type ''.'') of
            Some type_override \<Rightarrow> Inr (pre @ type_override)
          | None \<Rightarrow>
              if prefix ''chre'' chre_type then Inr (pre @ ''Chpp'' @ drop 4 chre_type)
              else Inl (NoNewTypeName chre_type))"

text \<open>
  The loop at the head of \<open>_get_member_type\<close>: the first annotation that is a
  \<open>rewrite_type\<close>, or (unless the underlying type of a variable-length array is asked
  for) a \<open>var_len_array\<close>, decides the type.
\<close>

fun member_type_by_annotation :: "bool \<Rightarrow> annotation list \<Rightarrow> string option" where
  "member_type_by_annotation underlying_vla_type [] = None"
| "member_type_by_annotation underlying_vla_type (Rewrite_type t # anns) = Some t"
| "member_type_by_annotation underlying_vla_type (Var_len_array l # anns) =
     (if \<not> underlying_vla_type then Some ''struct ChppOffset''
      else member_type_by_annotation underlying_vla_type anns)"
| "member_type_by_annotation underlying_vla_type (_ # anns) =
     member_type_by_annotation underlying_vla_type anns"

definition is_pointer_type :: "c_type \<Rightarrow> bool" where
  "is_pointer_type t \<longleftrightarrow>
     (case declarators t of PointerDecl # _ \<Rightarrow> True | _ \<Rightarrow> False)"

definition get_member_type :: "api \<Rightarrow> member_info \<Rightarrow> bool \<Rightarrow> error + string" where
  "get_member_type a m underlying_vla_type =
     (case member_type_by_annotation underlying_vla_type (annotations m) of
        Some t \<Rightarrow> Inr t
      | None \<Rightarrow>
          if \<not> underlying_vla_type \<and> is_pointer_type (ctype m)
          then Inl (PointerRequiresAnnotation m)
          else if is_nested_type m
          then (case nested_type_name m of
                  None \<Rightarrow> Inl (KeyError ''nested_type_name'')
                | Some n \<Rightarrow> get_chpp_type_from_chre a n)
          else Inr (type_spec (ctype m)))"

fun member_comment_loop :: "api \<Rightarrow> member_info \<Rightarrow> annotation list \<Rightarrow> error + string" where
  "member_comment_loop a m [] = Inr []"
| "member_comment_loop a m (Fixed_value v # anns) =
     Inr (''  // Input ignored; always set to '' @ v)"
| "member_comment_loop a m (Var_len_array l # anns) =
     ebind (get_member_type a m False)
       (\<lambda>t. Inr (''  // References '' @ l @ '' instances of '' @ t))"
| "member_comment_loop a m (_ # anns) = member_comment_loop a m anns"

definition get_member_comment :: "api \<Rightarrow> member_info \<Rightarrow> error + string" where
  "get_member_comment a m = member_comment_loop a m (annotations m)"

definition get_member_type_suffix :: "member_info \<Rightarrow> error + string" where
  "get_member_type_suffix m =
     (if is_array_type (ctype m)
      then ebind (get_array_len (ctype m)) (\<lambda>n. Inr (''['' @ show_int n @ '']''))
      else Inr [])"

text \<open>One line of a structure definition; the arguments of \<open>format\<close> are evaluated
  from left to right.\<close>

definition gen_member_line :: "api \<Rightarrow> member_info \<Rightarrow> error + string" where
  "gen_member_line a m =
     ebind (get_member_type a m False) (\<lambda>t.
     ebind (get_member_type_suffix m) (\<lambda>suffix.
     ebind (get_member_comment a m) (\<lambda>comment.
       Inr (''  '' @ t @ '' '' @ name m @ suffix @ '';'' @ comment @ [CHR 0x0A]))))"

fun gen_member_lines :: "api \<Rightarrow> member_info list \<Rightarrow> error + string list" where
  "gen_member_lines a [] = Inr []"
| "gen_member_lines a (m # ms) =
     ebind (gen_member_line a m) (\<lambda>l.
     ebind (gen_member_lines a ms) (\<lambda>ls. Inr (l # ls)))"

definition gen_struct_or_union :: "api \<Rightarrow> string \<Rightarrow> error + string list" where
  "gen_struct_or_union a n =
     (let out = (if \<not> prefix ''anon'' n
                 then [''//! See {@link '' @ n @ ''} for details'' @ [CHR 0x0A]] else [])
      in ebind (get_chpp_type_from_chre a n) (\<lambda>t.
         ebind (lookup_type a n) (\<lambda>e.
         ebind (gen_member_lines a (members e)) (\<lambda>ls.
           Inr (out @ [t @ '' {'' @ [CHR 0x0A]] @ ls
                  @ [''} CHPP_PACKED_ATTR;'' @ [CHR 0x0A, CHR 0x0A]])))))"

subsection \<open>The order of the definitions (\<open>_sorted_structs\<close>)\<close>

text \<open>
  \<open>sort_helper\<close> is a recursive closure over the variables \<open>result\<close> and \<open>visited\<close>
  of \<open>_sorted_structs\<close>; the model passes both as a state. The recursion is nested (the
  loop goes on with the set \<open>visited\<close> that the call left), so the model counts the
  depth of the calls down from a bound and gives \<open>None\<close> below it. A call is made only
  for a dependency that was not in \<open>visited\<close> and is put there first; the bound that
  \<open>sorted_structs\<close> starts from is the number of types and one.
\<close>

record sort_state =
  visited :: "string set"
  result :: "string list"

fun sort_helper :: "nat \<Rightarrow> graph \<Rightarrow> string \<Rightarrow> sort_state \<Rightarrow> (error + sort_state) option"
  and sort_deps :: "nat \<Rightarrow> graph \<Rightarrow> string list \<Rightarrow> sort_state \<Rightarrow> (error + sort_state) option"
  where
  "sort_helper depth collection key s =
     (case map_of collection key of
        None \<Rightarrow> Some (Inl (KeyError key))
      | Some e \<Rightarrow>
          (case depth of
             0 \<Rightarrow> None
           | Suc d \<Rightarrow>
               (case sort_deps d collection (sorted_list_of_set (dependencies e)) s of
                  None \<Rightarrow> None
                | Some (Inl err) \<Rightarrow> Some (Inl err)
                | Some (Inr s') \<Rightarrow> Some (Inr (s'\<lparr> result := result s' @ [key] \<rparr>)))))"
| "sort_deps d collection [] s = Some (Inr s)"
| "sort_deps d collection (dep # deps) s =
     (if dep \<notin> visited s
      then (case sort_helper d collection dep (s\<lparr> visited := insert dep (visited s) \<rparr>) of
              None \<Rightarrow> None
            | Some (Inl err) \<Rightarrow> Some (Inl err)
            | Some (Inr s') \<Rightarrow> sort_deps d collection deps s')
      else sort_deps d collection deps s)"

fun sort_roots :: "nat \<Rightarrow> graph \<Rightarrow> string list \<Rightarrow> sort_state \<Rightarrow> (error + sort_state) option" where
  "sort_roots d collection [] s = Some (Inr s)"
| "sort_roots d collection (node # nodes) s =
     (case sort_helper d collection node s of
        None \<Rightarrow> None
      | Some (Inl err) \<Rightarrow> Some (Inl err)
      | Some (Inr s') \<Rightarrow> sort_roots d collection nodes s')"

definition sorted_structs :: "api \<Rightarrow> string list \<Rightarrow> (error + string list) option" where
  "sorted_structs a root_nodes =
     (case sort_roots (Suc (length (structs_and_unions a))) (structs_and_unions a)
             (sort root_nodes) \<lparr> visited = {}, result = [] \<rparr> of
        None \<Rightarrow> None
      | Some (Inl err) \<Rightarrow> Some (Inl err)
      | Some (Inr s) \<Rightarrow> Some (Inr (result s)))"

text \<open>\<open>_gen_structs_and_unions\<close>: the definitions of all the types, in that order.\<close>

fun gen_each_struct_or_union :: "api \<Rightarrow> string list \<Rightarrow> error + string list" where
  "gen_each_struct_or_union a [] = Inr []"
| "gen_each_struct_or_union a (n # ns) =
     ebind (gen_struct_or_union a n) (\<lambda>out.
     ebind (gen_each_struct_or_union a ns) (\<lambda>outs. Inr (out @ outs)))"

definition gen_structs_and_unions :: "api \<Rightarrow> (error + string list) option" where
  "gen_structs_and_unions a =
     (case sorted_structs a (root_structs a) of
        None \<Rightarrow> None
      | Some (Inl err) \<Rightarrow> Some (Inl err)
      | Some (Inr names) \<Rightarrow>
          Some (ebind (gen_each_struct_or_union a names) (\<lambda>outs.
                  Inr ([''CHPP_PACKED_START'' @ [CHR 0x0A, CHR 0x0A]] @ outs
                        @ [''CHPP_PACKED_END'' @ [CHR 0x0A, CHR 0x0A]]))))"

subsection \<open>Names of the generated functions\<close>

text \<open>
  \<open>str.upper\<close> and \<open>str.lower\<close> on one character, for the ASCII letters; service and
  structure names are C identifiers and file names.
\<close>

definition upper_char :: "char \<Rightarrow> char" where
  "upper_char c =
     (if CHR ''a'' \<le> c \<and> c \<le> CHR ''z'' then char_of (of_char c - (32 :: nat)) else c)"

definition lower_char :: "char \<Rightarrow> char" where
  "lower_char c =
     (if CHR ''A'' \<le> c \<and> c \<le> CHR ''Z'' then char_of (of_char c + (32 :: nat)) else c)"

text \<open>\<open>s[0].upper() + s[1:]\<close> and \<open>s[0].lower() + s[1:]\<close>; \<open>s[0]\<close> raises on the empty string.\<close>

definition upcase_first :: "string \<Rightarrow> error + string" where
  "upcase_first s = (case s of [] \<Rightarrow> Inl IndexError | c # cs \<Rightarrow> Inr (upper_char c # cs))"

definition downcase_first :: "string \<Rightarrow> error + string" where
  "downcase_first s = (case s of [] \<Rightarrow> Inl IndexError | c # cs \<Rightarrow> Inr (lower_char c # cs))"

definition capitalized_service_name :: "api \<Rightarrow> error + string" where
  "capitalized_service_name a = upcase_first (service_name a)"

definition strip_prefix_and_service_from_chre_struct_name :: "api \<Rightarrow> string \<Rightarrow> error + string" where
  "strip_prefix_and_service_from_chre_struct_name a struct =
     (let chre_stripped = drop 4 struct in
      ebind (upcase_first (service_name a)) (\<lambda>upcased_service_name.
        if \<not> prefix ''chre'' struct \<or> \<not> prefix upcased_service_name chre_stripped
        then Inl (UnexpectedStructureName struct)
        else Inr (drop (length (service_name a)) chre_stripped)))"

definition get_chpp_sizeof_function_name :: "api \<Rightarrow> string \<Rightarrow> error + string" where
  "get_chpp_sizeof_function_name a chre_struct =
     ebind (strip_prefix_and_service_from_chre_struct_name a chre_struct) (\<lambda>core_type_name.
     ebind (capitalized_service_name a) (\<lambda>cap.
       Inr (''chpp'' @ cap @ ''SizeOf'' @ core_type_name @ ''FromChre'')))"

definition get_encoding_function_name :: "api \<Rightarrow> string \<Rightarrow> error + string" where
  "get_encoding_function_name a chre_type =
     ebind (strip_prefix_and_service_from_chre_struct_name a chre_type) (\<lambda>core_type_name.
     ebind (capitalized_service_name a) (\<lambda>cap.
       Inr (''chpp'' @ cap @ ''Convert'' @ core_type_name @ ''FromChre'')))"

definition get_encode_allocation_function_name :: "api \<Rightarrow> string \<Rightarrow> error + string" where
  "get_encode_allocation_function_name a chre_type =
     ebind (strip_prefix_and_service_from_chre_struct_name a chre_type) (\<lambda>core_type_name.
     ebind (capitalized_service_name a) (\<lambda>cap.
       Inr (''chpp'' @ cap @ core_type_name @ ''FromChre'')))"

subsection \<open>Size functions\<close>

text \<open>The nested type of a member: \<open>member_info['nested_type_name']\<close> and its entry.\<close>

definition nested_entry :: "api \<Rightarrow> member_info \<Rightarrow> error + string \<times> entry" where
  "nested_entry a m =
     (case nested_type_name m of
        None \<Rightarrow> Inl (KeyError ''nested_type_name'')
      | Some chre_type \<Rightarrow> ebind (lookup_type a chre_type) (\<lambda>e. Inr (chre_type, e)))"

definition get_chpp_member_sizeof_call :: "api \<Rightarrow> member_info \<Rightarrow> error + string" where
  "get_chpp_member_sizeof_call a m =
     (if is_nested_type m
      then ebind (nested_entry a m) (\<lambda>(chre_type, e).
             if has_vla_member e
             then ebind (get_chpp_sizeof_function_name a chre_type) (\<lambda>f.
                    Inr (f @ ''(in->'' @ name m @ '')''))
             else ebind (get_chpp_type_from_chre a chre_type) (\<lambda>type_name.
                    Inr (''sizeof('' @ type_name @ '')'')))
      else Inr (''sizeof('' @ type_spec (ctype m) @ '')''))"

text \<open>
  The two loops of \<open>_gen_chpp_sizeof_function\<close>, over the members and over the
  annotations of each: one line for each \<open>var_len_array\<close> annotation, unless the member
  is of a nested type that has a variable-length member itself.
\<close>

fun sizeof_annotation_lines ::
  "api \<Rightarrow> string \<Rightarrow> string \<Rightarrow> member_info \<Rightarrow> annotation list \<Rightarrow> error + string list" where
  "sizeof_annotation_lines a chre_type parameter_name m [] = Inr []"
| "sizeof_annotation_lines a chre_type parameter_name m (Var_len_array length_field # anns) =
     ebind (if is_nested_type m
            then ebind (nested_entry a m) (\<lambda>(n, e).
                   if has_vla_member e then Inl (NestedVLA (name m) chre_type) else Inr ())
            else Inr ()) (\<lambda>_.
     ebind (get_member_type a m True) (\<lambda>t.
     ebind (sizeof_annotation_lines a chre_type parameter_name m anns) (\<lambda>ls.
       Inr ((''  encodedSize += '' @ parameter_name @ ''->'' @ length_field
               @ '' * sizeof('' @ t @ '');'' @ [CHR 0x0A]) # ls))))"
| "sizeof_annotation_lines a chre_type parameter_name m (_ # anns) =
     sizeof_annotation_lines a chre_type parameter_name m anns"

fun sizeof_member_lines ::
  "api \<Rightarrow> string \<Rightarrow> string \<Rightarrow> member_info list \<Rightarrow> error + string list" where
  "sizeof_member_lines a chre_type parameter_name [] = Inr []"
| "sizeof_member_lines a chre_type parameter_name (m # ms) =
     ebind (sizeof_annotation_lines a chre_type parameter_name m (annotations m)) (\<lambda>ls.
     ebind (sizeof_member_lines a chre_type parameter_name ms) (\<lambda>ls'. Inr (ls @ ls')))"

definition gen_chpp_sizeof_function :: "api \<Rightarrow> string \<Rightarrow> error + string list" where
  "gen_chpp_sizeof_function a chre_type =
     ebind (lookup_type a chre_type) (\<lambda>struct_info.
       if \<not> has_vla_member struct_info then Inr []
       else
         ebind (strip_prefix_and_service_from_chre_struct_name a chre_type) (\<lambda>core_type_name.
         ebind (downcase_first core_type_name) (\<lambda>parameter_name.
         ebind (get_chpp_type_from_chre a chre_type) (\<lambda>chpp_type_name.
         ebind (get_chpp_sizeof_function_name a chre_type) (\<lambda>f.
         ebind (get_struct_or_union_prefix a chre_type) (\<lambda>pre.
         ebind (sizeof_member_lines a chre_type parameter_name (members struct_info)) (\<lambda>ls.
           Inr ([''//! @return number of bytes required to represent the given'' @ [CHR 0x0A]
                   @ ''//! '' @ chre_type @ '' as '' @ chpp_type_name @ [CHR 0x0A],
                 ''static size_t '' @ f @ ''('' @ [CHR 0x0A] @ ''        const '' @ pre
                   @ chre_type @ '' *'' @ parameter_name @ '') {'' @ [CHR 0x0A],
                 ''  size_t encodedSize = sizeof('' @ chpp_type_name @ '');'' @ [CHR 0x0A]]
                @ ls @ [''  return encodedSize;'' @ [CHR 0x0A] @ ''}'' @ [CHR 0x0A, CHR 0x0A]]))))))))"

fun gen_chpp_sizeof_functions_loop :: "api \<Rightarrow> string list \<Rightarrow> error + string list" where
  "gen_chpp_sizeof_functions_loop a [] = Inr []"
| "gen_chpp_sizeof_functions_loop a (struct # rest) =
     ebind (gen_chpp_sizeof_function a struct) (\<lambda>out.
     ebind (gen_chpp_sizeof_functions_loop a rest) (\<lambda>outs. Inr (out @ outs)))"

definition gen_chpp_sizeof_functions :: "api \<Rightarrow> error + string list" where
  "gen_chpp_sizeof_functions a = gen_chpp_sizeof_functions_loop a (root_structs a)"

definition get_chpp_sizeof_call :: "api \<Rightarrow> string \<Rightarrow> error + string" where
  "get_chpp_sizeof_call a chre_type =
     ebind (lookup_type a chre_type) (\<lambda>e.
       if has_vla_member e
       then ebind (get_chpp_sizeof_function_name a chre_type) (\<lambda>f. Inr (f @ ''(in)''))
       else ebind (get_chpp_type_from_chre a chre_type) (\<lambda>t. Inr (''sizeof('' @ t @ '')'')))"

subsection \<open>Encoders\<close>

definition get_assignment_statement_for_field ::
  "api \<Rightarrow> member_info \<Rightarrow> bool \<Rightarrow> string option \<Rightarrow> error + string" where
  "get_assignment_statement_for_field a m in_vla_loop containing_field_name =
     (let array_index = (if in_vla_loop then ''[i]'' else []);
          output_accessor = (if in_vla_loop then [] else ''out->'');
          containing_field = (case containing_field_name of Some c \<Rightarrow> c @ ''.'' | None \<Rightarrow> []);
          output_variable = output_accessor @ containing_field @ name m @ array_index;
          input_variable = ''in->'' @ containing_field @ name m @ array_index
      in if is_nested_type m
         then ebind (nested_entry a m) (\<lambda>(chre_type, e).
                let vla_params = (if has_vla_member e
                                  then '', payload, payloadSize, vlaOffset'' else [])
                in ebind (get_encoding_function_name a chre_type) (\<lambda>f.
                     Inr (f @ ''(&'' @ input_variable @ '', &'' @ output_variable @ vla_params
                            @ '');'' @ [CHR 0x0A])))
         else if is_array_type (ctype m)
         then Inr (''memcpy('' @ output_variable @ '', '' @ input_variable @ '', sizeof(''
                     @ output_variable @ ''));'' @ [CHR 0x0A])
         else Inr (output_variable @ '' = '' @ input_variable @ '';'' @ [CHR 0x0A]))"

definition gen_vla_encoding :: "api \<Rightarrow> member_info \<Rightarrow> string \<Rightarrow> error + string list" where
  "gen_vla_encoding a m length_field =
     (let variable_name = name m in
      ebind (get_member_type a m True) (\<lambda>chpp_type.
      ebind (get_chpp_member_sizeof_call a m) (\<lambda>sizeof_call.
      ebind (get_assignment_statement_for_field a m True None) (\<lambda>assignment.
        Inr [[CHR 0x0A] @ ''    '' @ chpp_type @ '' *'' @ variable_name @ '' = ('' @ chpp_type
               @ '' *) &payload[*vlaOffset];'' @ [CHR 0x0A],
             ''  out->'' @ name m @ ''.length = in->'' @ length_field @ '' * '' @ sizeof_call
               @ '';'' @ [CHR 0x0A],
             ''  CHPP_ASSERT(*vlaOffset + out->'' @ name m @ ''.length <= payloadSize);''
               @ [CHR 0x0A],
             ''  if (out->'' @ name m @ ''.length > 0 &&'' @ [CHR 0x0A]
               @ ''      *vlaOffset + out->'' @ name m @ ''.length <= payloadSize) {''
               @ [CHR 0x0A],
             ''    out->'' @ name m @ ''.offset = *vlaOffset;'' @ [CHR 0x0A],
             ''    *vlaOffset += out->'' @ name m @ ''.length;'' @ [CHR 0x0A],
             ''    for (size_t i = 0; i < in->'' @ length_field @ ''; i++) {'' @ [CHR 0x0A],
             ''      '' @ assignment,
             ''    }'' @ [CHR 0x0A],
             ''  } else {'' @ [CHR 0x0A],
             ''    out->'' @ name m @ ''.offset = 0;'' @ [CHR 0x0A],
             ''  }'' @ [CHR 0x0A]]))))"

text \<open>
  The inner loop of \<open>_gen_union_variant_conversion_code\<close>: the first member of the
  union with the mapped name.
\<close>

fun find_member :: "string \<Rightarrow> member_info list \<Rightarrow> member_info option" where
  "find_member field_name [] = None"
| "find_member field_name (m # ms) =
     (if name m = field_name then Some m else find_member field_name ms)"

fun union_variant_cases ::
  "api \<Rightarrow> string \<Rightarrow> entry \<Rightarrow> member_info \<Rightarrow> (string \<times> string) list \<Rightarrow> error + string list" where
  "union_variant_cases a chre_type struct_info m [] = Inr []"
| "union_variant_cases a chre_type struct_info m ((v, field_name) # mapping) =
     (case find_member field_name (members struct_info) of
        None \<Rightarrow> Inl (InvalidMapping field_name chre_type)
      | Some nested_member_info \<Rightarrow>
          ebind (get_assignment_statement_for_field a nested_member_info False (Some (name m)))
            (\<lambda>assignment.
          ebind (union_variant_cases a chre_type struct_info m mapping) (\<lambda>rest.
            Inr ([''    case '' @ v @ '':'' @ [CHR 0x0A], ''      '' @ assignment,
                  ''      break;'' @ [CHR 0x0A]] @ rest))))"

definition gen_union_variant_conversion_code ::
  "api \<Rightarrow> member_info \<Rightarrow> string \<Rightarrow> (string \<times> string) list \<Rightarrow> error + string list" where
  "gen_union_variant_conversion_code a m discriminator mapping =
     ebind (nested_entry a m) (\<lambda>(chre_type, struct_info).
     ebind (union_variant_cases a chre_type struct_info m mapping) (\<lambda>cases.
       Inr ([''  memset(&out->'' @ name m @ '', 0, sizeof(out->'' @ name m @ ''));''
               @ [CHR 0x0A],
             ''  switch (in->'' @ discriminator @ '') {'' @ [CHR 0x0A]]
            @ cases
            @ [''    default:'' @ [CHR 0x0A] @ ''      CHPP_ASSERT(false);'' @ [CHR 0x0A]
                 @ ''  }'' @ [CHR 0x0A]])))"

subsection \<open>Allocation entry points\<close>

definition gen_encode_allocation_function_signature :: "api \<Rightarrow> string \<Rightarrow> error + string list" where
  "gen_encode_allocation_function_signature a chre_type =
     ebind (get_encode_allocation_function_name a chre_type) (\<lambda>f.
     ebind (get_struct_or_union_prefix a chre_type) (\<lambda>pre.
     ebind (get_chpp_type_from_chre a chre_type) (\<lambda>t.
       Inr [''bool '' @ f @ ''('' @ [CHR 0x0A],
            ''    const '' @ pre @ chre_type @ '' *in,'' @ [CHR 0x0A],
            ''    '' @ t @ '' **out,'' @ [CHR 0x0A],
            ''    size_t *outSize)''])))"

definition gen_encode_allocation_function :: "api \<Rightarrow> string \<Rightarrow> error + string list" where
  "gen_encode_allocation_function a chre_type =
     ebind (gen_encode_allocation_function_signature a chre_type) (\<lambda>sig.
     ebind (get_chpp_sizeof_call a chre_type) (\<lambda>sizeof_call.
     ebind (get_chpp_type_from_chre a chre_type) (\<lambda>t.
     ebind (lookup_type a chre_type) (\<lambda>struct_info.
     ebind (get_encoding_function_name a chre_type) (\<lambda>enc.
       Inr (sig
            @ ['' {'' @ [CHR 0x0A],
               ''  CHPP_NOT_NULL(out);'' @ [CHR 0x0A],
               ''  CHPP_NOT_NULL(outSize);'' @ [CHR 0x0A, CHR 0x0A],
               ''  size_t payloadSize = '' @ sizeof_call @ '';'' @ [CHR 0x0A],
               ''  *out = chppMalloc(payloadSize);'' @ [CHR 0x0A],
               ''  if (*out != NULL) {'' @ [CHR 0x0A]]
            @ (if has_vla_member struct_info
               then [''    uint8_t *payload = (uint8_t *) *out;'' @ [CHR 0x0A],
                     ''    uint16_t vlaOffset = sizeof('' @ t @ '');'' @ [CHR 0x0A]]
               else [])
            @ [''    '' @ enc @ ''(in, *out'']
            @ (if has_vla_member struct_info then ['', payload, payloadSize, &vlaOffset'']
               else [])
            @ ['');'' @ [CHR 0x0A],
               ''    *outSize = payloadSize;'' @ [CHR 0x0A],
               ''    return true;'' @ [CHR 0x0A],
               ''  }'' @ [CHR 0x0A],
               ''  return false;'' @ [CHR 0x0A] @ ''}'' @ [CHR 0x0A]]))))))"

section \<open>The generated C code\<close>

text \<open>
  The generator prints C. To say what the printed code does when it runs, the code is
  given as a syntax tree with a printer and an interpreter: the lemmas \<open>*_text\<close> below
  show that the text the generator returns is the printed tree (up to white space), and
  the interpreter runs the tree.
\<close>

subsection \<open>Syntax\<close>

text \<open>
  Expressions. An atom is a piece of text that stands for a value: a variable, a field of
  the input or output structure (\<open>in->count\<close>, \<open>out->cells.length\<close>, \<open>*vlaOffset\<close>), a
  \<open>sizeof\<close> or the call of a size function.
\<close>

datatype cexpr =
    Atom string
  | Zero
  | TrueE
  | FalseE
  | Null
  | Mul cexpr cexpr
  | Add cexpr cexpr
  | Le cexpr cexpr
  | Gt cexpr cexpr
  | NotEq cexpr cexpr
  | AndE cexpr cexpr
  | Cast string cexpr
  | AddrIndex string cexpr
  | Malloc cexpr

text \<open>
  Statements. \<open>Opaque\<close> is a statement of which only the text is kept: the assignment
  of one member or element, as \<open>_get_assignment_statement_for_field\<close> prints it, or the
  call of an encoder. \<open>DeclarePointer\<close> declares a local pointer into the output
  buffer, which only opaque statements use. \<open>For bound body\<close> is the loop
  \<open>for (size_t i = 0; i < bound; i++) { body }\<close> over such a statement; every case of a
  \<open>Switch\<close> ends with \<open>break\<close>.
\<close>

datatype cstmt =
    Opaque string
  | Declare string string cexpr
  | DeclarePointer string string cexpr
  | Assign string cexpr
  | AddAssign string cexpr
  | Assert cexpr
  | NotNull string
  | Memset0 string
  | IfElse cexpr "cstmt list" "cstmt list"
  | If cexpr "cstmt list"
  | For string string
  | Switch string "(string \<times> cstmt list) list" "cstmt list"
  | Return cexpr

subsection \<open>Printing\<close>

fun prec :: "cexpr \<Rightarrow> nat" where
  "prec (Mul _ _) = 7"
| "prec (Add _ _) = 6"
| "prec (Le _ _) = 5"
| "prec (Gt _ _) = 5"
| "prec (NotEq _ _) = 4"
| "prec (AndE _ _) = 3"
| "prec (Cast _ _) = 8"
| "prec _ = 10"

definition paren :: "bool \<Rightarrow> string \<Rightarrow> string" where
  "paren b s = (if b then ''('' @ s @ '')'' else s)"

fun render_expr :: "cexpr \<Rightarrow> string" where
  "render_expr (Atom t) = t"
| "render_expr Zero = ''0''"
| "render_expr TrueE = ''true''"
| "render_expr FalseE = ''false''"
| "render_expr Null = ''NULL''"
| "render_expr (Mul x y) =
     paren (prec x < 7) (render_expr x) @ '' * '' @ paren (prec y \<le> 7) (render_expr y)"
| "render_expr (Add x y) =
     paren (prec x < 6) (render_expr x) @ '' + '' @ paren (prec y \<le> 6) (render_expr y)"
| "render_expr (Le x y) =
     paren (prec x < 5) (render_expr x) @ '' <= '' @ paren (prec y \<le> 5) (render_expr y)"
| "render_expr (Gt x y) =
     paren (prec x < 5) (render_expr x) @ '' > '' @ paren (prec y \<le> 5) (render_expr y)"
| "render_expr (NotEq x y) =
     paren (prec x < 4) (render_expr x) @ '' != '' @ paren (prec y \<le> 4) (render_expr y)"
| "render_expr (AndE x y) =
     paren (prec x < 3) (render_expr x) @ '' && '' @ paren (prec y \<le> 3) (render_expr y)"
| "render_expr (Cast t x) = ''('' @ t @ '') '' @ paren (prec x < 8) (render_expr x)"
| "render_expr (AddrIndex b x) = ''&'' @ b @ ''['' @ render_expr x @ '']''"
| "render_expr (Malloc x) = ''chppMalloc('' @ render_expr x @ '')''"

fun render :: "cstmt \<Rightarrow> string"
  and render_list :: "cstmt list \<Rightarrow> string"
  and render_cases :: "(string \<times> cstmt list) list \<Rightarrow> string" where
  "render (Opaque t) = t"
| "render (Declare ty x e) = ty @ '' '' @ x @ '' = '' @ render_expr e @ '';''"
| "render (DeclarePointer ty x e) = ty @ '' '' @ x @ '' = '' @ render_expr e @ '';''"
| "render (Assign lv e) = lv @ '' = '' @ render_expr e @ '';''"
| "render (AddAssign lv e) = lv @ '' += '' @ render_expr e @ '';''"
| "render (Assert e) = ''CHPP_ASSERT('' @ render_expr e @ '');''"
| "render (NotNull x) = ''CHPP_NOT_NULL('' @ x @ '');''"
| "render (Memset0 lv) = ''memset(&'' @ lv @ '', 0, sizeof('' @ lv @ ''));''"
| "render (IfElse c xs ys) =
     ''if ('' @ render_expr c @ '') {'' @ render_list xs @ ''} else {'' @ render_list ys @ ''}''"
| "render (If c xs) = ''if ('' @ render_expr c @ '') {'' @ render_list xs @ ''}''"
| "render (For bound body) =
     ''for (size_t i = 0; i < '' @ bound @ ''; i++) {'' @ body @ ''}''"
| "render (Switch d cases dflt) =
     ''switch ('' @ d @ '') {'' @ render_cases cases @ ''default:'' @ render_list dflt @ ''}''"
| "render (Return e) = ''return '' @ render_expr e @ '';''"
| "render_list [] = []"
| "render_list (x # xs) = render x @ '' '' @ render_list xs"
| "render_cases [] = []"
| "render_cases (c # cs) =
     ''case '' @ fst c @ '':'' @ render_list (snd c) @ ''break;'' @ render_cases cs"

text \<open>Text without its white space: the generator's layout is not compared.\<close>

definition squash :: "string \<Rightarrow> string" where
  "squash s = filter (\<lambda>c. c \<noteq> CHR '' '' \<and> c \<noteq> CHR 0x0A) s"

subsection \<open>Running\<close>

text \<open>
  What the code does not fix is a parameter: the width in bits of the integer type of
  each variable and field (a value is reduced modulo two to that power when it is stored),
  the value of the constant that labels a case,
  whether \<open>CHPP_ASSERT\<close> stops the program (the macro is defined outside the script; it
  stops a build with assertions and does nothing otherwise), what \<open>chppMalloc\<close> returns
  (0 is \<open>NULL\<close>), and what an opaque statement does to the variables (the second argument
  is the loop index). Values are natural numbers; expressions are evaluated without
  overflow, which for the unsigned operands of the generated expressions agrees with C
  once the value is stored. The bound of a \<open>for\<close> loop is a field of the input
  structure, which the generated functions take as a pointer to \<open>const\<close>; it is read
  when the loop starts.
\<close>

record cenv =
  bits :: "string \<Rightarrow> nat"
  label_value :: "string \<Rightarrow> nat"
  assert_fatal :: bool
  chppMalloc :: "nat \<Rightarrow> nat"
  effect :: "string \<Rightarrow> nat option \<Rightarrow> (string \<Rightarrow> nat) \<Rightarrow> (string \<Rightarrow> nat)"

datatype event = Ran string "nat option" | Zeroed string | AssertFailed

record cstate =
  vars :: "string \<Rightarrow> nat"
  trace :: "event list"

datatype outcome = Normal cstate | Aborted cstate | Returned nat cstate

definition truth :: "bool \<Rightarrow> nat" where
  "truth b = (if b then 1 else 0)"

fun eval :: "cenv \<Rightarrow> (string \<Rightarrow> nat) \<Rightarrow> cexpr \<Rightarrow> nat" where
  "eval env v (Atom t) = v t"
| "eval env v Zero = 0"
| "eval env v TrueE = 1"
| "eval env v FalseE = 0"
| "eval env v Null = 0"
| "eval env v (Mul x y) = eval env v x * eval env v y"
| "eval env v (Add x y) = eval env v x + eval env v y"
| "eval env v (Le x y) = truth (eval env v x \<le> eval env v y)"
| "eval env v (Gt x y) = truth (eval env v x > eval env v y)"
| "eval env v (NotEq x y) = truth (eval env v x \<noteq> eval env v y)"
| "eval env v (AndE x y) = truth (eval env v x \<noteq> 0 \<and> eval env v y \<noteq> 0)"
| "eval env v (Cast t x) = eval env v x"
| "eval env v (AddrIndex b x) = v b + eval env v x"
| "eval env v (Malloc x) = chppMalloc env (eval env v x)"

definition store :: "cenv \<Rightarrow> string \<Rightarrow> nat \<Rightarrow> cstate \<Rightarrow> cstate" where
  "store env lv n s = s\<lparr> vars := (vars s)(lv := n mod 2 ^ bits env lv) \<rparr>"

definition run_opaque :: "cenv \<Rightarrow> string \<Rightarrow> nat option \<Rightarrow> cstate \<Rightarrow> cstate" where
  "run_opaque env t i s =
     s\<lparr> vars := effect env t i (vars s), trace := trace s @ [Ran t i] \<rparr>"

definition failed_assert :: "cenv \<Rightarrow> cstate \<Rightarrow> outcome" where
  "failed_assert env s =
     (let s' = s\<lparr> trace := trace s @ [AssertFailed] \<rparr>
      in if assert_fatal env then Aborted s' else Normal s')"

text \<open>\<open>memset(&lv, 0, sizeof(lv))\<close> clears \<open>lv\<close> and every field of it.\<close>

definition zero_storage :: "string \<Rightarrow> cstate \<Rightarrow> cstate" where
  "zero_storage lv s =
     s\<lparr> vars := (\<lambda>x. if x = lv \<or> prefix (lv @ ''.'') x then 0 else vars s x),
        trace := trace s @ [Zeroed lv] \<rparr>"

text \<open>
  Running a statement, a list of statements, and the cases of a \<open>switch\<close> for a
  value of the discriminator: the first case whose label has that value is run, the
  default when there is none.
\<close>

function exec :: "cenv \<Rightarrow> cstmt \<Rightarrow> cstate \<Rightarrow> outcome"
  and exec_list :: "cenv \<Rightarrow> cstmt list \<Rightarrow> cstate \<Rightarrow> outcome"
  and exec_cases :: "cenv \<Rightarrow> nat \<Rightarrow> (string \<times> cstmt list) list \<Rightarrow> cstmt list \<Rightarrow> cstate \<Rightarrow> outcome"
  where
  "exec env (Opaque t) s = Normal (run_opaque env t None s)"
| "exec env (Declare ty x e) s = Normal (store env x (eval env (vars s) e) s)"
| "exec env (DeclarePointer ty x e) s = Normal s"
| "exec env (Assign lv e) s = Normal (store env lv (eval env (vars s) e) s)"
| "exec env (AddAssign lv e) s = Normal (store env lv (vars s lv + eval env (vars s) e) s)"
| "exec env (Assert e) s =
     (if eval env (vars s) e \<noteq> 0 then Normal s else failed_assert env s)"
| "exec env (NotNull x) s = (if vars s x \<noteq> 0 then Normal s else failed_assert env s)"
| "exec env (Memset0 lv) s = Normal (zero_storage lv s)"
| "exec env (IfElse c xs ys) s =
     (if eval env (vars s) c \<noteq> 0 then exec_list env xs s else exec_list env ys s)"
| "exec env (If c xs) s = (if eval env (vars s) c \<noteq> 0 then exec_list env xs s else Normal s)"
| "exec env (For bound body) s =
     Normal (foldl (\<lambda>s i. run_opaque env body (Some i) s) s [0 ..< vars s bound])"
| "exec env (Switch d cases dflt) s = exec_cases env (vars s d) cases dflt s"
| "exec env (Return e) s = Returned (eval env (vars s) e) s"
| "exec_list env [] s = Normal s"
| "exec_list env (x # xs) s =
     (case exec env x s of Normal s' \<Rightarrow> exec_list env xs s' | r \<Rightarrow> r)"
| "exec_cases env d [] dflt s = exec_list env dflt s"
| "exec_cases env d (c # cs) dflt s =
     (if label_value env (fst c) = d then exec_list env (snd c) s
      else exec_cases env d cs dflt s)"
  by pat_completeness auto

termination
  by (relation "measure (\<lambda>x. case x of
           Inl (env, st, s) \<Rightarrow> 3 * size st
         | Inr (Inl (env, xs, s)) \<Rightarrow> 3 * size_list size xs + 1
         | Inr (Inr (env, d, cs, dflt, s)) \<Rightarrow>
             3 * (size_list (size_prod (\<lambda>_. 0) (size_list size)) cs + size_list size dflt) + 2)")
     auto

subsection \<open>The code of a variable-length array member\<close>

text \<open>
  The statements that \<open>_gen_vla_encoding\<close> prints, for the member's name, the length
  field, the element type, the \<open>sizeof\<close> call and the assignment of one element.
\<close>

definition vla_encoding_code ::
  "string \<Rightarrow> string \<Rightarrow> string \<Rightarrow> string \<Rightarrow> string \<Rightarrow> cstmt list" where
  "vla_encoding_code nm length_field chpp_type sizeof_call assignment =
     [DeclarePointer (chpp_type @ '' *'') nm
        (Cast (chpp_type @ '' *'') (AddrIndex ''payload'' (Atom ''*vlaOffset''))),
      Assign (''out->'' @ nm @ ''.length'')
        (Mul (Atom (''in->'' @ length_field)) (Atom sizeof_call)),
      Assert (Le (Add (Atom ''*vlaOffset'') (Atom (''out->'' @ nm @ ''.length'')))
                 (Atom ''payloadSize'')),
      IfElse (AndE (Gt (Atom (''out->'' @ nm @ ''.length'')) Zero)
                   (Le (Add (Atom ''*vlaOffset'') (Atom (''out->'' @ nm @ ''.length'')))
                       (Atom ''payloadSize'')))
        [Assign (''out->'' @ nm @ ''.offset'') (Atom ''*vlaOffset''),
         AddAssign ''*vlaOffset'' (Atom (''out->'' @ nm @ ''.length'')),
         For (''in->'' @ length_field) assignment]
        [Assign (''out->'' @ nm @ ''.offset'') Zero]]"

definition gen_vla_encoding_code :: "api \<Rightarrow> member_info \<Rightarrow> string \<Rightarrow> error + cstmt list" where
  "gen_vla_encoding_code a m length_field =
     ebind (get_member_type a m True) (\<lambda>chpp_type.
     ebind (get_chpp_member_sizeof_call a m) (\<lambda>sizeof_call.
     ebind (get_assignment_statement_for_field a m True None) (\<lambda>assignment.
       Inr (vla_encoding_code (name m) length_field chpp_type sizeof_call assignment))))"

text \<open>The two fields of the descriptor of a member.\<close>

definition length_of :: "string \<Rightarrow> string" where
  "length_of nm = ''out->'' @ nm @ ''.length''"

definition offset_of :: "string \<Rightarrow> string" where
  "offset_of nm = ''out->'' @ nm @ ''.offset''"

text \<open>The byte length that the generated code stores in the descriptor.\<close>

definition stored_length :: "cenv \<Rightarrow> cstate \<Rightarrow> string \<Rightarrow> string \<Rightarrow> string \<Rightarrow> nat" where
  "stored_length env s nm length_field sizeof_call =
     (vars s (''in->'' @ length_field) * vars s sizeof_call) mod 2 ^ bits env (length_of nm)"

fun is_Ran :: "event \<Rightarrow> bool" where
  "is_Ran (Ran _ _) = True"
| "is_Ran _ = False"

subsection \<open>The code of an allocation entry point\<close>

text \<open>
  The body of the function that \<open>_gen_encode_allocation_function\<close> prints, for the
  \<open>sizeof\<close> call, the generated type, the flag of the type and the name of its encoder.
\<close>

definition encode_allocation_body :: "string \<Rightarrow> string \<Rightarrow> bool \<Rightarrow> string \<Rightarrow> cstmt list" where
  "encode_allocation_body sizeof_call chpp_type has_vla enc =
     [NotNull ''out'',
      NotNull ''outSize'',
      Declare ''size_t'' ''payloadSize'' (Atom sizeof_call),
      Assign ''*out'' (Malloc (Atom ''payloadSize'')),
      If (NotEq (Atom ''*out'') Null)
        ((if has_vla
          then [DeclarePointer ''uint8_t *'' ''payload'' (Cast ''uint8_t *'' (Atom ''*out'')),
                Declare ''uint16_t'' ''vlaOffset'' (Atom (''sizeof('' @ chpp_type @ '')''))]
          else [])
         @ [Opaque (enc @ ''(in, *out''
                      @ (if has_vla then '', payload, payloadSize, &vlaOffset'' else [])
                      @ '');''),
            Assign ''*outSize'' (Atom ''payloadSize''),
            Return TrueE]),
      Return FalseE]"

definition gen_encode_allocation_function_code ::
  "api \<Rightarrow> string \<Rightarrow> error + string list \<times> cstmt list" where
  "gen_encode_allocation_function_code a chre_type =
     ebind (gen_encode_allocation_function_signature a chre_type) (\<lambda>sig.
     ebind (get_chpp_sizeof_call a chre_type) (\<lambda>sizeof_call.
     ebind (get_chpp_type_from_chre a chre_type) (\<lambda>t.
     ebind (lookup_type a chre_type) (\<lambda>struct_info.
     ebind (get_encoding_function_name a chre_type) (\<lambda>enc.
       Inr (sig, encode_allocation_body sizeof_call t (has_vla_member struct_info) enc))))))"

text \<open>A function: its signature, and its body between braces.\<close>

definition render_function :: "string list \<Rightarrow> cstmt list \<Rightarrow> string" where
  "render_function sig body = concat sig @ '' {'' @ render_list body @ ''}''"

subsection \<open>The code of a union member\<close>

text \<open>
  The statements that \<open>_gen_union_variant_conversion_code\<close> prints, for the member's
  name, the discriminator and the cases: the value and the assignment of each.
\<close>

definition union_variant_code :: "string \<Rightarrow> string \<Rightarrow> (string \<times> string) list \<Rightarrow> cstmt list" where
  "union_variant_code nm discriminator cases =
     [Memset0 (''out->'' @ nm),
      Switch (''in->'' @ discriminator) (map (\<lambda>(v, asg). (v, [Opaque asg])) cases)
        [Assert FalseE]]"

fun union_variant_case_code ::
  "api \<Rightarrow> string \<Rightarrow> entry \<Rightarrow> member_info \<Rightarrow> (string \<times> string) list
     \<Rightarrow> error + (string \<times> string) list" where
  "union_variant_case_code a chre_type struct_info m [] = Inr []"
| "union_variant_case_code a chre_type struct_info m ((v, field_name) # mapping) =
     (case find_member field_name (members struct_info) of
        None \<Rightarrow> Inl (InvalidMapping field_name chre_type)
      | Some nested_member_info \<Rightarrow>
          ebind (get_assignment_statement_for_field a nested_member_info False (Some (name m)))
            (\<lambda>assignment.
          ebind (union_variant_case_code a chre_type struct_info m mapping) (\<lambda>rest.
            Inr ((v, assignment) # rest))))"

definition gen_union_variant_code ::
  "api \<Rightarrow> member_info \<Rightarrow> string \<Rightarrow> (string \<times> string) list \<Rightarrow> error + cstmt list" where
  "gen_union_variant_code a m discriminator mapping =
     ebind (nested_entry a m) (\<lambda>(chre_type, struct_info).
     ebind (union_variant_case_code a chre_type struct_info m mapping) (\<lambda>cases.
       Inr (union_variant_code (name m) discriminator cases)))"

subsection \<open>The code of a size function\<close>

text \<open>
  The size function that \<open>_gen_chpp_sizeof_function\<close> prints. A term is a length
  field with the element type of its array: one for each \<open>var_len_array\<close> annotation of
  each member, as the two loops find them.
\<close>

fun sizeof_annotation_terms ::
  "api \<Rightarrow> string \<Rightarrow> member_info \<Rightarrow> annotation list \<Rightarrow> error + (string \<times> string) list" where
  "sizeof_annotation_terms a chre_type m [] = Inr []"
| "sizeof_annotation_terms a chre_type m (Var_len_array length_field # anns) =
     ebind (if is_nested_type m
            then ebind (nested_entry a m) (\<lambda>(n, e).
                   if has_vla_member e then Inl (NestedVLA (name m) chre_type) else Inr ())
            else Inr ()) (\<lambda>_.
     ebind (get_member_type a m True) (\<lambda>t.
     ebind (sizeof_annotation_terms a chre_type m anns) (\<lambda>ts. Inr ((length_field, t) # ts))))"
| "sizeof_annotation_terms a chre_type m (_ # anns) = sizeof_annotation_terms a chre_type m anns"

fun sizeof_member_terms ::
  "api \<Rightarrow> string \<Rightarrow> member_info list \<Rightarrow> error + (string \<times> string) list" where
  "sizeof_member_terms a chre_type [] = Inr []"
| "sizeof_member_terms a chre_type (m # ms) =
     ebind (sizeof_annotation_terms a chre_type m (annotations m)) (\<lambda>ts.
     ebind (sizeof_member_terms a chre_type ms) (\<lambda>ts'. Inr (ts @ ts')))"

definition add_term :: "string \<Rightarrow> string \<times> string \<Rightarrow> cstmt" where
  "add_term parameter_name lt =
     AddAssign ''encodedSize''
       (Mul (Atom (parameter_name @ ''->'' @ fst lt)) (Atom (''sizeof('' @ snd lt @ '')'')))"

definition sizeof_function_body :: "string \<Rightarrow> string \<Rightarrow> (string \<times> string) list \<Rightarrow> cstmt list" where
  "sizeof_function_body chpp_type_name parameter_name terms =
     [Declare ''size_t'' ''encodedSize'' (Atom (''sizeof('' @ chpp_type_name @ '')''))]
     @ map (add_term parameter_name) terms
     @ [Return (Atom ''encodedSize'')]"

definition sizeof_function_signature :: "string \<Rightarrow> string \<Rightarrow> string \<Rightarrow> string \<Rightarrow> string" where
  "sizeof_function_signature f pre chre_type parameter_name =
     ''static size_t '' @ f @ ''(const '' @ pre @ chre_type @ '' *'' @ parameter_name @ '')''"

definition sizeof_function_comment :: "string \<Rightarrow> string \<Rightarrow> string" where
  "sizeof_function_comment chre_type chpp_type_name =
     ''//! @return number of bytes required to represent the given'' @ [CHR 0x0A]
       @ ''//! '' @ chre_type @ '' as '' @ chpp_type_name @ [CHR 0x0A]"

text \<open>The length fields of the \<open>var_len_array\<close> annotations of a member.\<close>

fun vla_length_fields :: "annotation list \<Rightarrow> string list" where
  "vla_length_fields [] = []"
| "vla_length_fields (Var_len_array l # anns) = l # vla_length_fields anns"
| "vla_length_fields (_ # anns) = vla_length_fields anns"

text \<open>
  The bytes that the variable-length arrays of one member take: for each of its length
  fields the value of the field in the instance \<open>p\<close> times the size of the element type.
\<close>

definition member_vla_bytes :: "api \<Rightarrow> (string \<Rightarrow> nat) \<Rightarrow> string \<Rightarrow> member_info \<Rightarrow> nat" where
  "member_vla_bytes a v p m =
     (case get_member_type a m True of
        Inl _ \<Rightarrow> 0
      | Inr t \<Rightarrow> sum_list (map (\<lambda>l. v (p @ ''->'' @ l) * v (''sizeof('' @ t @ '')''))
                            (vla_length_fields (annotations m))))"

definition term_bytes :: "(string \<Rightarrow> nat) \<Rightarrow> string \<Rightarrow> string \<times> string \<Rightarrow> nat" where
  "term_bytes v p lt = v (p @ ''->'' @ fst lt) * v (''sizeof('' @ snd lt @ '')'')"

text \<open>
  The size of an instance \<open>p\<close> of a type: the size of its generated layout and the bytes
  of the variable-length arrays of its members.
\<close>

definition encoded_size :: "api \<Rightarrow> entry \<Rightarrow> string \<Rightarrow> string \<Rightarrow> (string \<Rightarrow> nat) \<Rightarrow> nat" where
  "encoded_size a info t p v =
     v (''sizeof('' @ t @ '')'') + sum_list (map (member_vla_bytes a v p) (members info))"

section \<open>Example inputs\<close>

text \<open>
  A structure with a pointer member that carries no annotation, the graph the parser
  builds for it, and the generator's view of it.
\<close>

definition ex_pointer_defs :: parser_defs where
  "ex_pointer_defs =
     \<lparr> structs = [(''chreFooBar'',
                    [(''count'', \<lparr> type_spec = ''uint8_t'', declarators = [] \<rparr>),
                     (''data'', \<lparr> type_spec = ''uint8_t'', declarators = [PointerDecl] \<rparr>)])],
       unions = [] \<rparr>"

definition ex_pointer_member :: member_info where
  "ex_pointer_member =
     \<lparr> name = ''data'', ctype = \<lparr> type_spec = ''uint8_t'', declarators = [PointerDecl] \<rparr>,
       annotations = [], is_nested_type = False, nested_type_name = None \<rparr>"

definition ex_pointer_entry :: entry where
  "ex_pointer_entry =
     \<lparr> appears_in = {}, dependencies = {}, has_vla_member = False,
       members = [\<lparr> name = ''count'', ctype = \<lparr> type_spec = ''uint8_t'', declarators = [] \<rparr>,
                    annotations = [], is_nested_type = False, nested_type_name = None \<rparr>,
                  ex_pointer_member],
       is_union = False \<rparr>"

definition ex_pointer_api :: api where
  "ex_pointer_api =
     \<lparr> api_annotations = parse_annotations [],
       structs_and_unions = [(''chreFooBar'', ex_pointer_entry)],
       service_name = ''foo'', root_structs = [''chreFooBar''] \<rparr>"

text \<open>
  Two root structures, the second with a member whose type is the first.
\<close>

definition ex_two_roots_graph :: graph where
  "ex_two_roots_graph =
     [(''chreFooB'',
       \<lparr> appears_in = {}, dependencies = {''chreFooA''}, has_vla_member = False,
         members = [\<lparr> name = ''a'',
                      ctype = \<lparr> type_spec = ''struct chreFooA'', declarators = [] \<rparr>,
                      annotations = [], is_nested_type = True,
                      nested_type_name = Some ''chreFooA'' \<rparr>],
         is_union = False \<rparr>),
      (''chreFooA'',
       \<lparr> appears_in = {''chreFooB''}, dependencies = {}, has_vla_member = False,
         members = [\<lparr> name = ''x'',
                      ctype = \<lparr> type_spec = ''uint8_t'', declarators = [] \<rparr>,
                      annotations = [], is_nested_type = False, nested_type_name = None \<rparr>],
         is_union = False \<rparr>)]"

definition ex_two_roots_defs :: parser_defs where
  "ex_two_roots_defs =
     \<lparr> structs = [(''chreFooA'', [(''x'', \<lparr> type_spec = ''uint8_t'', declarators = [] \<rparr>)]),
                   (''chreFooB'', [(''a'', \<lparr> type_spec = ''struct chreFooA'',
                                            declarators = [] \<rparr>)])],
       unions = [] \<rparr>"

definition ex_two_roots_api :: api where
  "ex_two_roots_api =
     \<lparr> api_annotations = parse_annotations [], structs_and_unions = ex_two_roots_graph,
       service_name = ''foo'', root_structs = [''chreFooA'', ''chreFooB''] \<rparr>"

text \<open>
  A structure whose variable-length array \<open>items\<close> has elements of a structure that has
  a variable-length array itself; and a structure with a union member whose variant is
  chosen by the field \<open>kind\<close>, for any mapping.
\<close>

definition ex_nested_inner :: entry where
  "ex_nested_inner =
     \<lparr> appears_in = {''chreFooOuter''}, dependencies = {}, has_vla_member = True,
       members = [\<lparr> name = ''n'', ctype = \<lparr> type_spec = ''uint8_t'', declarators = [] \<rparr>,
                    annotations = [], is_nested_type = False, nested_type_name = None \<rparr>,
                  \<lparr> name = ''data'',
                    ctype = \<lparr> type_spec = ''uint8_t'', declarators = [PointerDecl] \<rparr>,
                    annotations = [Var_len_array ''n''], is_nested_type = False,
                    nested_type_name = None \<rparr>],
       is_union = False \<rparr>"

definition ex_nested_items :: member_info where
  "ex_nested_items =
     \<lparr> name = ''items'',
       ctype = \<lparr> type_spec = ''struct chreFooInner'', declarators = [PointerDecl] \<rparr>,
       annotations = [Var_len_array ''count''], is_nested_type = True,
       nested_type_name = Some ''chreFooInner'' \<rparr>"

definition ex_nested_outer :: entry where
  "ex_nested_outer =
     \<lparr> appears_in = {}, dependencies = {''chreFooInner''}, has_vla_member = True,
       members = [\<lparr> name = ''count'', ctype = \<lparr> type_spec = ''uint8_t'', declarators = [] \<rparr>,
                    annotations = [], is_nested_type = False, nested_type_name = None \<rparr>,
                  ex_nested_items],
       is_union = False \<rparr>"

definition ex_nested_api :: api where
  "ex_nested_api =
     \<lparr> api_annotations = parse_annotations
         [(''chreFooOuter'', [(''items'', Var_len_array ''count'')]),
          (''chreFooInner'', [(''data'', Var_len_array ''n'')])],
       structs_and_unions = [(''chreFooOuter'', ex_nested_outer),
                             (''chreFooInner'', ex_nested_inner)],
       service_name = ''foo'', root_structs = [''chreFooOuter''] \<rparr>"

definition ex_union_entry :: entry where
  "ex_union_entry =
     \<lparr> appears_in = {''chreFooEvent''}, dependencies = {}, has_vla_member = False,
       members = [\<lparr> name = ''a'', ctype = \<lparr> type_spec = ''uint8_t'', declarators = [] \<rparr>,
                    annotations = [], is_nested_type = False, nested_type_name = None \<rparr>,
                  \<lparr> name = ''b'', ctype = \<lparr> type_spec = ''uint16_t'', declarators = [] \<rparr>,
                    annotations = [], is_nested_type = False, nested_type_name = None \<rparr>],
       is_union = True \<rparr>"

definition ex_union_member :: "(string \<times> string) list \<Rightarrow> member_info" where
  "ex_union_member mapping =
     \<lparr> name = ''u'', ctype = \<lparr> type_spec = ''union chreFooValue'', declarators = [] \<rparr>,
       annotations = [Union_variant ''kind'' mapping], is_nested_type = True,
       nested_type_name = Some ''chreFooValue'' \<rparr>"

definition ex_union_api :: "(string \<times> string) list \<Rightarrow> api" where
  "ex_union_api mapping =
     \<lparr> api_annotations = parse_annotations
         [(''chreFooEvent'', [(''u'', Union_variant ''kind'' mapping)])],
       structs_and_unions =
         [(''chreFooEvent'',
           \<lparr> appears_in = {}, dependencies = {''chreFooValue''}, has_vla_member = False,
             members = [\<lparr> name = ''kind'',
                          ctype = \<lparr> type_spec = ''uint8_t'', declarators = [] \<rparr>,
                          annotations = [], is_nested_type = False, nested_type_name = None \<rparr>,
                        ex_union_member mapping],
             is_union = False \<rparr>),
          (''chreFooValue'', ex_union_entry)],
       service_name = ''foo'', root_structs = [''chreFooEvent''] \<rparr>"

text \<open>
  An environment for running generated code (assertions stop the program or not), a state
  from a list of values, and the variable-length array member \<open>data\<close> of the inner
  example structure with the code generated for it.
\<close>

definition ex_env :: "bool \<Rightarrow> cenv" where
  "ex_env fatal =
     \<lparr> bits = (\<lambda>x. if x = ''payloadSize'' \<or> x = ''encodedSize'' \<or> x = ''*outSize''
                     \<or> x = ''*out'' then 32 else 16),
       label_value = (\<lambda>x. if x = ''1'' then 1 else if x = ''2'' then 2 else 0),
       assert_fatal = fatal,
       chppMalloc = (\<lambda>n. 0),
       effect = (\<lambda>t i v. v) \<rparr>"

definition ex_state :: "(string \<times> nat) list \<Rightarrow> cstate" where
  "ex_state kv = \<lparr> vars = (\<lambda>x. case map_of kv x of Some n \<Rightarrow> n | None \<Rightarrow> 0), trace = [] \<rparr>"

definition ex_vla_member :: member_info where
  "ex_vla_member =
     \<lparr> name = ''data'', ctype = \<lparr> type_spec = ''uint8_t'', declarators = [PointerDecl] \<rparr>,
       annotations = [Var_len_array ''n''], is_nested_type = False, nested_type_name = None \<rparr>"

definition ex_vla_code :: "cstmt list" where
  "ex_vla_code =
     vla_encoding_code ''data'' ''n'' ''uint8_t'' ''sizeof(uint8_t)''
       (''data[i] = in->data[i];'' @ [CHR 0x0A])"

text \<open>
  The allocation entry point of the inner example structure, and a state in which the
  caller's buffer pointer and size hold 5 and 9.
\<close>

definition ex_alloc_body :: "cstmt list" where
  "ex_alloc_body =
     encode_allocation_body ''chppFooSizeOfInnerFromChre(in)'' ''struct ChppFooInner'' True
       ''chppFooConvertInnerFromChre''"

definition ex_alloc_state :: cstate where
  "ex_alloc_state =
     ex_state [(''out'', 100), (''outSize'', 200), (''*out'', 5), (''*outSize'', 9),
               (''chppFooSizeOfInnerFromChre(in)'', 6)]"

text \<open>
  The union of the example with a second member that is a union itself, of a type whose
  name does not follow the naming convention (its generated name comes from a
  \<open>rename_type\<close> annotation); and the code generated for the first example union with
  the mapping of 1 to \<open>a\<close> and 2 to \<open>b\<close>.
\<close>

definition ex_nested_union_entry :: entry where
  "ex_nested_union_entry =
     \<lparr> appears_in = {''chreFooEvent''}, dependencies = {''otherChoice''}, has_vla_member = False,
       members = [\<lparr> name = ''a'', ctype = \<lparr> type_spec = ''uint8_t'', declarators = [] \<rparr>,
                    annotations = [], is_nested_type = False, nested_type_name = None \<rparr>,
                  \<lparr> name = ''b'', ctype = \<lparr> type_spec = ''union otherChoice'', declarators = [] \<rparr>,
                    annotations = [], is_nested_type = True,
                    nested_type_name = Some ''otherChoice'' \<rparr>],
       is_union = True \<rparr>"

definition ex_nested_union_api :: api where
  "ex_nested_union_api =
     \<lparr> api_annotations = parse_annotations
         [(''chreFooEvent'', [(''u'', Union_variant ''kind'' [(''1'', ''a''), (''2'', ''b'')])]),
          (''otherChoice'', [(''.'', Rename_type ''ChppFooChoice'')])],
       structs_and_unions =
         [(''chreFooEvent'',
           \<lparr> appears_in = {}, dependencies = {''chreFooValue''}, has_vla_member = False,
             members = [\<lparr> name = ''kind'',
                          ctype = \<lparr> type_spec = ''uint8_t'', declarators = [] \<rparr>,
                          annotations = [], is_nested_type = False, nested_type_name = None \<rparr>,
                        ex_union_member [(''1'', ''a''), (''2'', ''b'')]],
             is_union = False \<rparr>),
          (''chreFooValue'', ex_nested_union_entry),
          (''otherChoice'',
           \<lparr> appears_in = {''chreFooValue''}, dependencies = {}, has_vla_member = False,
             members = [\<lparr> name = ''x'',
                          ctype = \<lparr> type_spec = ''uint8_t'', declarators = [] \<rparr>,
                          annotations = [], is_nested_type = False, nested_type_name = None \<rparr>],
             is_union = True \<rparr>)],
       service_name = ''foo'', root_structs = [''chreFooEvent''] \<rparr>"

definition ex_union_code :: "cstmt list" where
  "ex_union_code =
     union_variant_code ''u'' ''kind''
       [(''1'', ''out->u.a = in->u.a;'' @ [CHR 0x0A]),
        (''2'', ''out->u.b = in->u.b;'' @ [CHR 0x0A])]"

text \<open>
  The inner example structure as the only root, and a state in which its array has 12
  elements of 1 byte and its generated layout 3 bytes.
\<close>

definition ex_inner_root_api :: api where
  "ex_inner_root_api = ex_nested_api \<lparr> root_structs := [''chreFooInner''] \<rparr>"

definition ex_size_state :: cstate where
  "ex_size_state =
     ex_state [(''inner->n'', 12), (''sizeof(uint8_t)'', 1), (''sizeof(struct ChppFooInner)'', 3)]"

section \<open>Properties\<close>

subsection \<open>Errors of the graph builder and of header generation\<close>

lemma ebind_Inl_iff: "ebind r f = Inl err \<longleftrightarrow> r = Inl err \<or> (\<exists>v. r = Inr v \<and> f v = Inl err)"
  by (cases r) (auto simp: ebind_def)

lemma ebind_Inr_iff: "ebind r f = Inr x \<longleftrightarrow> (\<exists>v. r = Inr v \<and> f v = Inr x)"
  by (cases r) (auto simp: ebind_def)

lemma ebind_Inl [simp]: "ebind (Inl e) f = Inl e"
  by (simp add: ebind_def)

lemma ebind_Inr [simp]: "ebind (Inr v) f = f v"
  by (simp add: ebind_def)

lemma parse_loop_error:
  "parse_loop p ann to_parse g = Inl err \<Longrightarrow> \<exists>n. err = UnknownType n"
proof (induction p ann to_parse g rule: parse_loop.induct)
  case (1 p ann to_parse g)
  note unfold = parse_loop.simps [of p ann to_parse g]
  show ?case
  proof (cases "to_parse = []")
    case True
    with "1.prems" show ?thesis by (simp add: parse_loop.simps [of p ann "[]" g])
  next
    case ne: False
    show ?thesis
    proof (cases "last to_parse \<in> fst ` set g")
      case True
      with ne "1.prems" "1.IH"(1) show ?thesis by (simp add: unfold Let_def)
    next
      case nin: False
      show ?thesis
      proof (cases "lookup_defs p (last to_parse)")
        case None
        with ne nin "1.prems" show ?thesis by (auto simp: unfold Let_def)
      next
        case (Some r)
        obtain defs u where r: "r = (defs, u)" by (cases r)
        obtain e tp where f: "foldl (\<lambda>st m. parse_member ann (last to_parse) m st)
              (new_entry u, butlast to_parse) defs = (e, tp)"
          by (cases "foldl (\<lambda>st m. parse_member ann (last to_parse) m st)
              (new_entry u, butlast to_parse) defs")
        from ne nin Some r f "1.prems"
        have "parse_loop p ann tp (g @ [(last to_parse, e)]) = Inl err"
          by (simp add: unfold Let_def)
        with "1.IH"(2)[OF ne refl refl nin Some r[symmetric] f[symmetric] ] show ?thesis
          by simp
      qed
    qed
  qed
qed

lemma add_appears_in_error:
  "add_appears_in t ds g = Inl err \<Longrightarrow> \<exists>k. err = KeyError k"
  by (induction t ds g rule: add_appears_in.induct) (auto split: option.splits)

lemma link_loop_error:
  "link_loop enum ks g = Inl err \<Longrightarrow> \<exists>k. err = KeyError k"
  by (induction enum ks g rule: link_loop.induct)
     (auto split: option.splits sum.splits dest: add_appears_in_error)

lemma mark_loop_error_aux:
  assumes "mark_loop enum wl g = Some y"
  shows "\<forall>err. y = Inl err \<longrightarrow> (\<exists>k. err = KeyError k)"
  by (rule mark_loop.raw_induct
        [where P = "\<lambda>_ _ _ y. \<forall>err. y = Inl err \<longrightarrow> (\<exists>k. err = KeyError k)", OF _ assms])
     (auto split: if_splits option.splits)

lemma mark_loop_error:
  "mark_loop enum wl g = Some (Inl err) \<Longrightarrow> \<exists>k. err = KeyError k"
  using mark_loop_error_aux by blast

lemma bubble_loop_error:
  "bubble_loop enum ks g = Some (Inl err) \<Longrightarrow> \<exists>k. err = KeyError k"
  by (induction enum ks g rule: bubble_loop.induct)
     (auto split: option.splits sum.splits if_splits dest: mark_loop_error)

lemma parse_structs_and_unions_error:
  "parse_structs_and_unions enum p ann roots = Some (Inl err) \<Longrightarrow>
     (\<exists>n. err = UnknownType n) \<or> (\<exists>k. err = KeyError k)"
  by (auto simp: parse_structs_and_unions_def split: sum.splits
      dest: parse_loop_error link_loop_error bubble_loop_error)

lemma member_type_by_annotation_None:
  "\<forall>an \<in> set anns. \<not> is_rewrite_type an \<and> \<not> is_var_len_array an \<Longrightarrow>
     member_type_by_annotation u anns = None"
  by (induction u anns rule: member_type_by_annotation.induct) auto

lemma get_member_type_pointer:
  assumes "is_pointer_type (ctype m)"
    and "\<forall>an \<in> set (annotations m). \<not> is_rewrite_type an \<and> \<not> is_var_len_array an"
  shows "get_member_type a m False = Inl (PointerRequiresAnnotation m)"
  using assms by (simp add: get_member_type_def member_type_by_annotation_None)

lemma gen_member_lines_fails:
  "m \<in> set ms \<Longrightarrow> gen_member_line a m = Inl err \<Longrightarrow> \<exists>err'. gen_member_lines a ms = Inl err'"
proof (induction ms)
  case Nil
  then show ?case by simp
next
  case (Cons x ms)
  show ?case
  proof (cases "gen_member_line a x")
    case (Inl e)
    then show ?thesis by simp
  next
    case (Inr l)
    with Cons obtain err' where "gen_member_lines a ms = Inl err'" by auto
    with Inr show ?thesis by simp
  qed
qed

lemma gen_member_lines_first_failure:
  "gen_member_lines a ms1 = Inr ls \<Longrightarrow> gen_member_line a m = Inl err \<Longrightarrow>
     gen_member_lines a (ms1 @ m # ms2) = Inl err"
  by (induction ms1 arbitrary: ls) (auto simp: ebind_Inr_iff)

subsection \<open>Union variants: the mapping\<close>

lemma find_member_None_iff: "find_member f ms = None \<longleftrightarrow> f \<notin> name ` set ms"
  by (induction ms) auto

lemma find_member_Some: "find_member f ms = Some m \<Longrightarrow> m \<in> set ms \<and> name m = f"
  by (induction ms) (auto split: if_splits)

lemma union_variant_cases_fails:
  "(v, f) \<in> set mapping \<Longrightarrow> find_member f (members info) = None \<Longrightarrow>
     \<exists>err. union_variant_cases a t info m mapping = Inl err"
proof (induction mapping)
  case Nil
  then show ?case by simp
next
  case (Cons x mapping)
  obtain v' f' where x: "x = (v', f')" by (cases x)
  show ?case
  proof (cases "find_member f' (members info)")
    case None
    with x show ?thesis by simp
  next
    case (Some nm)
    show ?thesis
    proof (cases "get_assignment_statement_for_field a nm False (Some (name m))")
      case (Inl e)
      with x Some show ?thesis by simp
    next
      case (Inr asg)
      from Cons.prems Some x have "(v, f) \<in> set mapping" by auto
      with Cons.IH Cons.prems obtain err where "union_variant_cases a t info m mapping = Inl err"
        by blast
      with x Some Inr show ?thesis by simp
    qed
  qed
qed

lemma union_variant_cases_first_missing:
  "union_variant_cases a t info m pre = Inr outs \<Longrightarrow> find_member f (members info) = None \<Longrightarrow>
     union_variant_cases a t info m (pre @ (v, f) # post) = Inl (InvalidMapping f t)"
proof (induction pre arbitrary: outs)
  case Nil
  then show ?case by simp
next
  case (Cons x pre)
  obtain v' f' where x: "x = (v', f')" by (cases x)
  from Cons.prems(1) x obtain nm asg rest where
    "find_member f' (members info) = Some nm"
    "get_assignment_statement_for_field a nm False (Some (name m)) = Inr asg"
    "union_variant_cases a t info m pre = Inr rest"
    by (auto split: option.splits simp: ebind_Inr_iff)
  with Cons.IH [OF _ Cons.prems(2)] x show ?case by simp
qed

text \<open>The lines of the cases when all of them are generated.\<close>

fun case_lines :: "api \<Rightarrow> entry \<Rightarrow> member_info \<Rightarrow> string \<times> string \<Rightarrow> string list" where
  "case_lines a info m (v, f) =
     (case find_member f (members info) of
        Some nm \<Rightarrow>
          (case get_assignment_statement_for_field a nm False (Some (name m)) of
             Inr asg \<Rightarrow> [''    case '' @ v @ '':'' @ [CHR 0x0A], ''      '' @ asg,
                         ''      break;'' @ [CHR 0x0A]]
           | Inl _ \<Rightarrow> [])
      | None \<Rightarrow> [])"

lemma union_variant_cases_success:
  "union_variant_cases a t info m mapping = Inr outs \<Longrightarrow>
     (\<forall>(v, f) \<in> set mapping. \<exists>nm asg. find_member f (members info) = Some nm
         \<and> get_assignment_statement_for_field a nm False (Some (name m)) = Inr asg)
     \<and> outs = concat (map (case_lines a info m) mapping)"
proof (induction mapping arbitrary: outs)
  case Nil
  then show ?case by simp
next
  case (Cons x mapping)
  obtain v' f' where x: "x = (v', f')" by (cases x)
  from Cons.prems x obtain nm asg rest where *:
    "find_member f' (members info) = Some nm"
    "get_assignment_statement_for_field a nm False (Some (name m)) = Inr asg"
    "union_variant_cases a t info m mapping = Inr rest"
    "outs = [''    case '' @ v' @ '':'' @ [CHR 0x0A], ''      '' @ asg,
                         ''      break;'' @ [CHR 0x0A]] @ rest"
    by (auto split: option.splits simp: ebind_Inr_iff)
  from Cons.IH [OF *(3)] * x show ?case by simp
qed

text \<open>
  C9. When the mapping of a \<open>union_variant\<close> annotation names a field that is not a
  member of the union, the generator fails: \<open>_gen_union_variant_conversion_code\<close> never
  returns text for such a mapping, so no case is ever emitted without its assignment. The
  error is the invalid-mapping error with the missing field and the union type when the
  cases before it are generated (the first missing field of the mapping, unless the
  assignment of an earlier mapped member already failed on a name).
\<close>

theorem union_variant_missing_field_is_fatal:
  assumes "nested_entry a m = Inr (t, info)"
    and "(v, f) \<in> set mapping"
    and "f \<notin> name ` set (members info)"
  shows "(\<exists>err. gen_union_variant_conversion_code a m d mapping = Inl err)
     \<and> (\<forall>pre post outs.
           mapping = pre @ (v, f) # post \<and> union_variant_cases a t info m pre = Inr outs
           \<longrightarrow> gen_union_variant_conversion_code a m d mapping = Inl (InvalidMapping f t))"
proof -
  from assms(3) have none: "find_member f (members info) = None"
    by (simp add: find_member_None_iff)
  from union_variant_cases_fails [OF assms(2) none]
  obtain err where "union_variant_cases a t info m mapping = Inl err" by blast
  with assms(1) have 1: "\<exists>err. gen_union_variant_conversion_code a m d mapping = Inl err"
    by (simp add: gen_union_variant_conversion_code_def)
  have 2: "gen_union_variant_conversion_code a m d mapping = Inl (InvalidMapping f t)"
    if "mapping = pre @ (v, f) # post \<and> union_variant_cases a t info m pre = Inr outs"
    for pre post outs
    using that assms(1) union_variant_cases_first_missing [OF _ none, of a t m pre outs v post]
    by (simp add: gen_union_variant_conversion_code_def)
  from 1 2 show ?thesis by blast
qed

text \<open>The theorem at the example union, whose mapping names a field \<open>c\<close> it does not have.\<close>

theorem union_variant_missing_field_witness:
  "nested_entry (ex_union_api [(''1'', ''a''), (''2'', ''c'')])
       (ex_union_member [(''1'', ''a''), (''2'', ''c'')]) = Inr (''chreFooValue'', ex_union_entry)
   \<and> ''c'' \<notin> name ` set (members ex_union_entry)
   \<and> gen_union_variant_conversion_code (ex_union_api [(''1'', ''a''), (''2'', ''c'')])
        (ex_union_member [(''1'', ''a''), (''2'', ''c'')]) ''kind'' [(''1'', ''a''), (''2'', ''c'')]
       = Inl (InvalidMapping ''c'' ''chreFooValue'')"
proof -
  let ?mp = "[(''1'', ''a''), (''2'', ''c'')]"
  have n: "nested_entry (ex_union_api ?mp) (ex_union_member ?mp)
             = Inr (''chreFooValue'', ex_union_entry)"
    unfolding ex_union_api_def ex_union_member_def ex_union_entry_def by code_simp
  have m: "(''2'', ''c'') \<in> set ?mp" by simp
  have f: "''c'' \<notin> name ` set (members ex_union_entry)"
    by (simp add: ex_union_entry_def)
  have p: "?mp = [(''1'', ''a'')] @ (''2'', ''c'') # []
     \<and> union_variant_cases (ex_union_api ?mp) ''chreFooValue'' ex_union_entry
          (ex_union_member ?mp) [(''1'', ''a'')]
        = Inr [''    case 1:'' @ [CHR 0x0A], ''      out->u.a = in->u.a;'' @ [CHR 0x0A],
               ''      break;'' @ [CHR 0x0A]]"
    unfolding ex_union_api_def ex_union_member_def ex_union_entry_def by code_simp
  from union_variant_missing_field_is_fatal [OF n m f, of "''kind''"] p
  have "gen_union_variant_conversion_code (ex_union_api ?mp) (ex_union_member ?mp) ''kind'' ?mp
       = Inl (InvalidMapping ''c'' ''chreFooValue'')"
    by blast
  with n f show ?thesis by simp
qed

subsection \<open>Size functions: nested variable-length arrays\<close>

lemma lookup_type_error: "lookup_type a n = Inl err \<Longrightarrow> err = KeyError n"
  by (auto simp: lookup_type_def split: option.splits)

lemma nested_entry_error: "nested_entry a m = Inl err \<Longrightarrow> \<exists>k. err = KeyError k"
  by (auto simp: nested_entry_def ebind_Inl_iff split: option.splits dest: lookup_type_error)

lemma get_chpp_type_from_chre_error:
  "get_chpp_type_from_chre a n = Inl err \<Longrightarrow> (\<exists>k. err = KeyError k) \<or> err = NoNewTypeName n"
  by (auto simp: get_chpp_type_from_chre_def get_struct_or_union_prefix_def ebind_Inl_iff
      split: option.splits if_splits dest: lookup_type_error)

lemma get_member_type_underlying_error:
  "get_member_type a m True = Inl err \<Longrightarrow> (\<exists>k. err = KeyError k) \<or> (\<exists>n. err = NoNewTypeName n)"
  by (auto simp: get_member_type_def split: option.splits if_splits
      dest: get_chpp_type_from_chre_error)

text \<open>
  A member that is a variable-length array of a type that has a variable-length member
  itself.
\<close>

definition nested_vla_member :: "api \<Rightarrow> member_info \<Rightarrow> bool" where
  "nested_vla_member a m \<longleftrightarrow>
     (\<exists>a \<in> set (annotations m). is_var_len_array a) \<and> is_nested_type m
     \<and> (case nested_entry a m of Inr (n, e) \<Rightarrow> has_vla_member e | Inl _ \<Rightarrow> False)"

lemma sizeof_annotation_lines_nested:
  assumes "is_nested_type m" "nested_entry a m = Inr (n, e)" "has_vla_member e"
    and "\<exists>an \<in> set anns. is_var_len_array an"
  shows "sizeof_annotation_lines a ct p m anns = Inl (NestedVLA (name m) ct)"
  using assms(4)
proof (induction anns)
  case Nil
  then show ?case by simp
next
  case (Cons an anns)
  then show ?case using assms(1-3) by (cases an) auto
qed

lemma sizeof_annotation_lines_sound:
  "sizeof_annotation_lines a ct p m anns = Inl (NestedVLA n t) \<Longrightarrow>
     n = name m \<and> t = ct \<and> is_nested_type m \<and> (\<exists>an \<in> set anns. is_var_len_array an)
     \<and> (\<exists>k e. nested_entry a m = Inr (k, e) \<and> has_vla_member e)"
proof (induction anns)
  case Nil
  then show ?case by simp
next
  case (Cons an anns)
  show ?case
  proof (cases "is_var_len_array an")
    case False
    with Cons show ?thesis by (cases an) auto
  next
    case True
    then obtain l where an: "an = Var_len_array l" by (cases an) auto
    show ?thesis
    proof (cases "is_nested_type m")
      case nested: True
      show ?thesis
      proof (cases "nested_entry a m")
        case (Inl err)
        with Cons.prems an nested show ?thesis by (auto dest: nested_entry_error)
      next
        case (Inr ke)
        obtain k e where ke: "ke = (k, e)" by (cases ke)
        show ?thesis
        proof (cases "has_vla_member e")
          case True
          with Cons.prems an nested Inr ke show ?thesis by auto
        next
          case False
          with Cons.prems an nested Inr ke
          have "sizeof_annotation_lines a ct p m anns = Inl (NestedVLA n t)"
            by (auto simp: ebind_Inl_iff dest: get_member_type_underlying_error)
          with Cons.IH show ?thesis by auto
        qed
      qed
    next
      case False
      with Cons.prems an
      have "sizeof_annotation_lines a ct p m anns = Inl (NestedVLA n t)"
        by (auto simp: ebind_Inl_iff dest: get_member_type_underlying_error)
      with Cons.IH show ?thesis by auto
    qed
  qed
qed

lemma sizeof_annotation_lines_proceeds:
  assumes "\<not> nested_vla_member a m"
    and "is_nested_type m \<longrightarrow> (\<exists>ne. nested_entry a m = Inr ne)"
    and "\<exists>t. get_member_type a m True = Inr t"
    and "set anns \<subseteq> set (annotations m)"
  shows "\<exists>ls. sizeof_annotation_lines a ct p m anns = Inr ls"
  using assms(4)
proof (induction anns)
  case Nil
  then show ?case by simp
next
  case (Cons an anns)
  then obtain ls where ls: "sizeof_annotation_lines a ct p m anns = Inr ls" by auto
  show ?case
  proof (cases "is_var_len_array an")
    case False
    with ls show ?thesis by (cases an) auto
  next
    case True
    then obtain l where an: "an = Var_len_array l" by (cases an) auto
    from assms(3) obtain t where t: "get_member_type a m True = Inr t" by blast
    from True Cons.prems have v: "\<exists>a \<in> set (annotations m). is_var_len_array a" by auto
    show ?thesis
    proof (cases "is_nested_type m")
      case nested: True
      with assms(2) obtain k e where ke: "nested_entry a m = Inr (k, e)" by auto
      with assms(1) v nested have "\<not> has_vla_member e" by (simp add: nested_vla_member_def)
      with an nested ke t ls show ?thesis by simp
    next
      case False
      with an t ls show ?thesis by simp
    qed
  qed
qed

lemma sizeof_member_lines_sound:
  "sizeof_member_lines a ct p ms = Inl (NestedVLA n t) \<Longrightarrow>
     t = ct \<and> (\<exists>m \<in> set ms. name m = n \<and> nested_vla_member a m)"
proof (induction ms)
  case Nil
  then show ?case by simp
next
  case (Cons m ms)
  from Cons.prems consider
    "sizeof_annotation_lines a ct p m (annotations m) = Inl (NestedVLA n t)"
    | "sizeof_member_lines a ct p ms = Inl (NestedVLA n t)"
    by (auto simp: ebind_Inl_iff)
  then show ?case
  proof cases
    case 1
    from sizeof_annotation_lines_sound [OF 1] show ?thesis
      by (auto simp: nested_vla_member_def)
  next
    case 2
    with Cons.IH show ?thesis by auto
  qed
qed

lemma sizeof_member_lines_fails:
  "m \<in> set ms \<Longrightarrow> nested_vla_member a m \<Longrightarrow> \<exists>err. sizeof_member_lines a ct p ms = Inl err"
proof (induction ms)
  case Nil
  then show ?case by simp
next
  case (Cons x ms)
  show ?case
  proof (cases "sizeof_annotation_lines a ct p x (annotations x)")
    case (Inl err)
    then show ?thesis by simp
  next
    case (Inr ls)
    have "x \<noteq> m"
    proof
      assume "x = m"
      with Cons.prems(2) have "sizeof_annotation_lines a ct p x (annotations x)
          = Inl (NestedVLA (name x) ct)"
        by (auto simp: nested_vla_member_def split: sum.splits
            intro!: sizeof_annotation_lines_nested)
      with Inr show False by simp
    qed
    with Cons obtain err where "sizeof_member_lines a ct p ms = Inl err" by auto
    with Inr show ?thesis by simp
  qed
qed

definition member_resolves :: "api \<Rightarrow> member_info \<Rightarrow> bool" where
  "member_resolves a m \<longleftrightarrow>
     (is_nested_type m \<longrightarrow> (\<exists>ne. nested_entry a m = Inr ne))
     \<and> (\<exists>t. get_member_type a m True = Inr t)"

lemma sizeof_member_lines_exact:
  assumes "\<forall>m \<in> set ms. member_resolves a m"
  shows "(if \<exists>m \<in> set ms. nested_vla_member a m
          then \<exists>m \<in> set ms. nested_vla_member a m
                 \<and> sizeof_member_lines a ct p ms = Inl (NestedVLA (name m) ct)
          else \<exists>ls. sizeof_member_lines a ct p ms = Inr ls)"
  using assms
proof (induction ms)
  case Nil
  then show ?case by simp
next
  case (Cons x ms)
  show ?case
  proof (cases "nested_vla_member a x")
    case True
    then have "sizeof_annotation_lines a ct p x (annotations x) = Inl (NestedVLA (name x) ct)"
      by (auto simp: nested_vla_member_def split: sum.splits
          intro!: sizeof_annotation_lines_nested)
    with True show ?thesis by auto
  next
    case False
    from Cons.prems have "member_resolves a x" by simp
    with False obtain ls where ls: "sizeof_annotation_lines a ct p x (annotations x) = Inr ls"
      using sizeof_annotation_lines_proceeds [of a x "annotations x" ct p]
      by (auto simp: member_resolves_def)
    from Cons have IH: "(if \<exists>m \<in> set ms. nested_vla_member a m
          then \<exists>m \<in> set ms. nested_vla_member a m
                 \<and> sizeof_member_lines a ct p ms = Inl (NestedVLA (name m) ct)
          else \<exists>ls. sizeof_member_lines a ct p ms = Inr ls)" by simp
    show ?thesis
    proof (cases "\<exists>m \<in> set ms. nested_vla_member a m")
      case True
      with IH obtain m where "m \<in> set ms" "nested_vla_member a m"
        "sizeof_member_lines a ct p ms = Inl (NestedVLA (name m) ct)" by auto
      with ls show ?thesis by auto
    next
      case nn: False
      with IH obtain ls' where "sizeof_member_lines a ct p ms = Inr ls'" by auto
      with ls nn False show ?thesis by auto
    qed
  qed
qed

lemma strip_error:
  "strip_prefix_and_service_from_chre_struct_name a n = Inl err \<Longrightarrow>
     err = IndexError \<or> err = UnexpectedStructureName n"
  by (auto simp: strip_prefix_and_service_from_chre_struct_name_def upcase_first_def Let_def
      ebind_Inl_iff split: list.splits if_splits)

lemma function_name_error:
  "get_chpp_sizeof_function_name a n = Inl err \<Longrightarrow>
     err = IndexError \<or> err = UnexpectedStructureName n"
  by (auto simp: get_chpp_sizeof_function_name_def capitalized_service_name_def upcase_first_def
      ebind_Inl_iff split: list.splits dest: strip_error)

lemma strip_ok_function_name_ok:
  assumes "strip_prefix_and_service_from_chre_struct_name a n = Inr core"
  shows "\<exists>f. get_chpp_sizeof_function_name a n = Inr f"
proof (cases "upcase_first (service_name a)")
  case (Inl err)
  with assms show ?thesis
    by (simp add: strip_prefix_and_service_from_chre_struct_name_def Let_def)
next
  case (Inr v)
  with assms show ?thesis
    by (simp add: get_chpp_sizeof_function_name_def capitalized_service_name_def)
qed

lemma downcase_first_error: "downcase_first s = Inl err \<Longrightarrow> err = IndexError"
  by (auto simp: downcase_first_def split: list.splits)

lemma prefix_error: "get_struct_or_union_prefix a n = Inl err \<Longrightarrow> err = KeyError n"
  by (auto simp: get_struct_or_union_prefix_def ebind_Inl_iff dest: lookup_type_error)

definition size_function_names_resolve :: "api \<Rightarrow> string \<Rightarrow> bool" where
  "size_function_names_resolve a chre_type \<longleftrightarrow>
     (\<exists>core p t. strip_prefix_and_service_from_chre_struct_name a chre_type = Inr core
        \<and> downcase_first core = Inr p \<and> get_chpp_type_from_chre a chre_type = Inr t)"

lemma gen_chpp_sizeof_function_sound:
  assumes "map_of (structs_and_unions a) chre_type = Some info"
    and "gen_chpp_sizeof_function a chre_type = Inl (NestedVLA n t)"
  shows "t = chre_type \<and> (\<exists>m \<in> set (members info). name m = n \<and> nested_vla_member a m)"
proof -
  let ?e = "NestedVLA n t"
  from assms have flag: "has_vla_member info"
    by (auto simp: gen_chpp_sizeof_function_def lookup_type_def split: if_splits)
  have n1: "strip_prefix_and_service_from_chre_struct_name a chre_type \<noteq> Inl ?e"
    using strip_error by fastforce
  have n2: "\<And>c. downcase_first c \<noteq> Inl ?e"
    using downcase_first_error by fastforce
  have n3: "get_chpp_type_from_chre a chre_type \<noteq> Inl ?e"
    using get_chpp_type_from_chre_error by fastforce
  have n4: "get_chpp_sizeof_function_name a chre_type \<noteq> Inl ?e"
    using function_name_error by fastforce
  have n5: "get_struct_or_union_prefix a chre_type \<noteq> Inl ?e"
    using prefix_error by fastforce
  from assms flag n1 n2 n3 n4 n5
  obtain p where "sizeof_member_lines a chre_type p (members info) = Inl ?e"
    unfolding gen_chpp_sizeof_function_def lookup_type_def
    by (simp add: ebind_Inl_iff) blast
  then show ?thesis by (rule sizeof_member_lines_sound)
qed

lemma gen_chpp_sizeof_function_fails:
  assumes "map_of (structs_and_unions a) chre_type = Some info" "has_vla_member info"
    and "m \<in> set (members info)" "nested_vla_member a m"
  shows "\<exists>err. gen_chpp_sizeof_function a chre_type = Inl err"
proof -
  have *: "\<And>p. \<exists>err. sizeof_member_lines a chre_type p (members info) = Inl err"
    using assms(3,4) by (rule sizeof_member_lines_fails)
  show ?thesis
  proof (cases "gen_chpp_sizeof_function a chre_type")
    case (Inl err)
    then show ?thesis by simp
  next
    case (Inr out)
    with assms(1,2) obtain p ls where "sizeof_member_lines a chre_type p (members info) = Inr ls"
      by (auto simp: gen_chpp_sizeof_function_def lookup_type_def ebind_Inr_iff)
    with * [of p] show ?thesis by simp
  qed
qed

lemma gen_chpp_sizeof_function_exact:
  assumes "map_of (structs_and_unions a) chre_type = Some info" "has_vla_member info"
    and "size_function_names_resolve a chre_type"
    and "\<forall>m \<in> set (members info). member_resolves a m"
  shows "(if \<exists>m \<in> set (members info). nested_vla_member a m
          then \<exists>m \<in> set (members info). nested_vla_member a m
                 \<and> gen_chpp_sizeof_function a chre_type = Inl (NestedVLA (name m) chre_type)
          else \<exists>out. gen_chpp_sizeof_function a chre_type = Inr out)"
proof -
  from assms(3) obtain core p t where r:
    "strip_prefix_and_service_from_chre_struct_name a chre_type = Inr core"
    "downcase_first core = Inr p" "get_chpp_type_from_chre a chre_type = Inr t"
    by (auto simp: size_function_names_resolve_def)
  from strip_ok_function_name_ok [OF r(1)] obtain f where
    f: "get_chpp_sizeof_function_name a chre_type = Inr f" by blast
  have g: "gen_chpp_sizeof_function a chre_type =
      ebind (sizeof_member_lines a chre_type p (members info)) (\<lambda>ls.
           Inr ([''//! @return number of bytes required to represent the given'' @ [CHR 0x0A]
                   @ ''//! '' @ chre_type @ '' as '' @ t @ [CHR 0x0A],
                 ''static size_t '' @ f @ ''('' @ [CHR 0x0A] @ ''        const ''
                   @ (if \<not> is_union info then ''struct '' else ''union '')
                   @ chre_type @ '' *'' @ p @ '') {'' @ [CHR 0x0A],
                 ''  size_t encodedSize = sizeof('' @ t @ '');'' @ [CHR 0x0A]]
                @ ls @ [''  return encodedSize;'' @ [CHR 0x0A] @ ''}'' @ [CHR 0x0A, CHR 0x0A]]))"
    using assms(1,2) r f
    by (simp add: gen_chpp_sizeof_function_def lookup_type_def get_struct_or_union_prefix_def)
  from sizeof_member_lines_exact [OF assms(4), of chre_type p]
  show ?thesis
    by (auto simp: g split: if_splits)
qed

text \<open>
  C7. The size function of a type is refused with the nested-array error exactly for a
  member that is a variable-length array of a type that has a variable-length member
  itself: the error is raised only for such a member, and names it and the type of the
  function; a type with such a member never gets a size function; and when the names of
  the type and of its members resolve (the naming convention, which raises errors of its
  own), the error is raised if there is such a member, and the function is generated if
  there is none. \<open>has_vla_member\<close> is the flag the graph builder sets on every type with
  a \<open>var_len_array\<close> member; a type without the flag gets no size function at all.
\<close>

theorem nested_vla_rejected_by_size_function:
  assumes "map_of (structs_and_unions a) chre_type = Some info"
  shows "(\<forall>n t. gen_chpp_sizeof_function a chre_type = Inl (NestedVLA n t)
            \<longrightarrow> t = chre_type
                \<and> (\<exists>m \<in> set (members info). name m = n \<and> nested_vla_member a m))
     \<and> (has_vla_member info \<and> (\<exists>m \<in> set (members info). nested_vla_member a m)
            \<longrightarrow> (\<exists>err. gen_chpp_sizeof_function a chre_type = Inl err))
     \<and> (has_vla_member info \<and> size_function_names_resolve a chre_type
          \<and> (\<forall>m \<in> set (members info). member_resolves a m)
            \<longrightarrow> (if \<exists>m \<in> set (members info). nested_vla_member a m
                 then \<exists>m \<in> set (members info). nested_vla_member a m
                        \<and> gen_chpp_sizeof_function a chre_type
                            = Inl (NestedVLA (name m) chre_type)
                 else \<exists>out. gen_chpp_sizeof_function a chre_type = Inr out))"
proof -
  have 1: "t = chre_type \<and> (\<exists>m \<in> set (members info). name m = n \<and> nested_vla_member a m)"
    if "gen_chpp_sizeof_function a chre_type = Inl (NestedVLA n t)" for n t
    using assms that by (rule gen_chpp_sizeof_function_sound)
  have 2: "\<exists>err. gen_chpp_sizeof_function a chre_type = Inl err"
    if "has_vla_member info \<and> (\<exists>m \<in> set (members info). nested_vla_member a m)"
    using assms that by (blast intro: gen_chpp_sizeof_function_fails)
  have 3: "if \<exists>m \<in> set (members info). nested_vla_member a m
           then \<exists>m \<in> set (members info). nested_vla_member a m
                  \<and> gen_chpp_sizeof_function a chre_type = Inl (NestedVLA (name m) chre_type)
           else \<exists>out. gen_chpp_sizeof_function a chre_type = Inr out"
    if "has_vla_member info \<and> size_function_names_resolve a chre_type
          \<and> (\<forall>m \<in> set (members info). member_resolves a m)"
    using assms that gen_chpp_sizeof_function_exact [of a chre_type info] by blast
  from 1 2 3 show ?thesis by blast
qed

text \<open>
  The theorem at the example structures: the outer one is refused, for its member
  \<open>items\<close>; the inner one gets its size function.
\<close>

theorem nested_vla_witness:
  "map_of (structs_and_unions ex_nested_api) ''chreFooOuter'' = Some ex_nested_outer
   \<and> gen_chpp_sizeof_function ex_nested_api ''chreFooOuter''
       = Inl (NestedVLA ''items'' ''chreFooOuter'')
   \<and> (\<exists>m \<in> set (members ex_nested_outer). name m = ''items'' \<and> nested_vla_member ex_nested_api m)
   \<and> gen_chpp_sizeof_function ex_nested_api ''chreFooInner''
       = Inr [''//! @return number of bytes required to represent the given'' @ [CHR 0x0A]
                @ ''//! chreFooInner as struct ChppFooInner'' @ [CHR 0x0A],
              ''static size_t chppFooSizeOfInnerFromChre('' @ [CHR 0x0A]
                @ ''        const struct chreFooInner *inner) {'' @ [CHR 0x0A],
              ''  size_t encodedSize = sizeof(struct ChppFooInner);'' @ [CHR 0x0A],
              ''  encodedSize += inner->n * sizeof(uint8_t);'' @ [CHR 0x0A],
              ''  return encodedSize;'' @ [CHR 0x0A] @ ''}'' @ [CHR 0x0A, CHR 0x0A]]"
proof -
  have h: "map_of (structs_and_unions ex_nested_api) ''chreFooOuter'' = Some ex_nested_outer"
    by (simp add: ex_nested_api_def)
  have g: "gen_chpp_sizeof_function ex_nested_api ''chreFooOuter''
       = Inl (NestedVLA ''items'' ''chreFooOuter'')"
    unfolding ex_nested_api_def ex_nested_outer_def ex_nested_inner_def ex_nested_items_def
    by code_simp
  have i: "gen_chpp_sizeof_function ex_nested_api ''chreFooInner''
       = Inr [''//! @return number of bytes required to represent the given'' @ [CHR 0x0A]
                @ ''//! chreFooInner as struct ChppFooInner'' @ [CHR 0x0A],
              ''static size_t chppFooSizeOfInnerFromChre('' @ [CHR 0x0A]
                @ ''        const struct chreFooInner *inner) {'' @ [CHR 0x0A],
              ''  size_t encodedSize = sizeof(struct ChppFooInner);'' @ [CHR 0x0A],
              ''  encodedSize += inner->n * sizeof(uint8_t);'' @ [CHR 0x0A],
              ''  return encodedSize;'' @ [CHR 0x0A] @ ''}'' @ [CHR 0x0A, CHR 0x0A]]"
    unfolding ex_nested_api_def ex_nested_outer_def ex_nested_inner_def ex_nested_items_def
    by code_simp
  from nested_vla_rejected_by_size_function [OF h] g
  have "\<exists>m \<in> set (members ex_nested_outer). name m = ''items''
          \<and> nested_vla_member ex_nested_api m"
    by blast
  with h g i show ?thesis by simp
qed

subsection \<open>Variable-length array members: the generated code\<close>

lemma squash_append [simp]: "squash (xs @ ys) = squash xs @ squash ys"
  by (simp add: squash_def)

lemma squash_Cons:
  "squash (c # cs) = (if c = CHR '' '' \<or> c = CHR 0x0A then squash cs else c # squash cs)"
  by (simp add: squash_def)

lemma squash_Nil [simp]: "squash [] = []"
  by (simp add: squash_def)

lemma vla_encoding_text:
  "(case gen_vla_encoding a m l of
      Inl err \<Rightarrow> gen_vla_encoding_code a m l = Inl err
    | Inr out \<Rightarrow> (\<exists>code. gen_vla_encoding_code a m l = Inr code
                    \<and> squash (concat out) = squash (render_list code)))"
proof (cases "get_member_type a m True")
  case (Inl e)
  then show ?thesis by (simp add: gen_vla_encoding_def gen_vla_encoding_code_def)
next
  case t: (Inr chpp_type)
  show ?thesis
  proof (cases "get_chpp_member_sizeof_call a m")
    case (Inl e)
    with t show ?thesis by (simp add: gen_vla_encoding_def gen_vla_encoding_code_def)
  next
    case sz: (Inr sizeof_call)
    show ?thesis
    proof (cases "get_assignment_statement_for_field a m True None")
      case (Inl e)
      with t sz show ?thesis by (simp add: gen_vla_encoding_def gen_vla_encoding_code_def)
    next
      case (Inr assignment)
      with t sz show ?thesis
        by (simp add: gen_vla_encoding_def gen_vla_encoding_code_def vla_encoding_code_def
            squash_Cons paren_def)
    qed
  qed
qed

lemma vla_encoding_no_room:
  assumes "\<not> (0 < stored_length env s nm l sz
              \<and> vars s ''*vlaOffset'' + stored_length env s nm l sz \<le> vars s ''payloadSize'')"
  shows "exec_list env (vla_encoding_code nm l t sz asg) s =
     (if vars s ''*vlaOffset'' + stored_length env s nm l sz \<le> vars s ''payloadSize''
      then Normal (s\<lparr> vars := (vars s)(length_of nm := stored_length env s nm l sz,
                                       offset_of nm := 0) \<rparr>)
      else if assert_fatal env
      then Aborted (s\<lparr> vars := (vars s)(length_of nm := stored_length env s nm l sz),
                       trace := trace s @ [AssertFailed] \<rparr>)
      else Normal (s\<lparr> vars := (vars s)(length_of nm := stored_length env s nm l sz,
                                       offset_of nm := 0),
                      trace := trace s @ [AssertFailed] \<rparr>))"
  using assms
  by (auto simp: vla_encoding_code_def store_def failed_assert_def truth_def length_of_def
      offset_of_def stored_length_def Let_def)

lemma vla_encoding_room:
  assumes "0 < stored_length env s nm l sz"
    and "vars s ''*vlaOffset'' + stored_length env s nm l sz \<le> vars s ''payloadSize''"
  shows "exec_list env (vla_encoding_code nm l t sz asg) s =
     Normal (foldl (\<lambda>s i. run_opaque env asg (Some i) s)
       (s\<lparr> vars := (vars s)(length_of nm := stored_length env s nm l sz,
                             offset_of nm := vars s ''*vlaOffset'' mod 2 ^ bits env (offset_of nm),
                             ''*vlaOffset'' := (vars s ''*vlaOffset'' + stored_length env s nm l sz)
                                                  mod 2 ^ bits env ''*vlaOffset'') \<rparr>)
       [0 ..< vars s (''in->'' @ l)])"
  using assms
  by (auto simp: vla_encoding_code_def store_def failed_assert_def truth_def length_of_def
      offset_of_def stored_length_def Let_def fun_upd_twist)

lemma gen_vla_encoding_code_Inr:
  assumes "gen_vla_encoding a m l = Inr out"
  shows "\<exists>t sz asg. get_member_type a m True = Inr t
           \<and> get_chpp_member_sizeof_call a m = Inr sz
           \<and> get_assignment_statement_for_field a m True None = Inr asg
           \<and> gen_vla_encoding_code a m l = Inr (vla_encoding_code (name m) l t sz asg)
           \<and> squash (concat out) = squash (render_list (vla_encoding_code (name m) l t sz asg))"
proof -
  from assms vla_encoding_text [of a m l]
  obtain code where c: "gen_vla_encoding_code a m l = Inr code"
    "squash (concat out) = squash (render_list code)" by auto
  from c(1) obtain t sz asg where "get_member_type a m True = Inr t"
    "get_chpp_member_sizeof_call a m = Inr sz"
    "get_assignment_statement_for_field a m True None = Inr asg"
    "code = vla_encoding_code (name m) l t sz asg"
    by (auto simp: gen_vla_encoding_code_def ebind_Inr_iff)
  with c show ?thesis by auto
qed

lemma ex_vla_generated:
  "gen_vla_encoding ex_nested_api ex_vla_member ''n'' =
     Inr [[CHR 0x0A] @ ''    uint8_t *data = (uint8_t *) &payload[*vlaOffset];'' @ [CHR 0x0A],
          ''  out->data.length = in->n * sizeof(uint8_t);'' @ [CHR 0x0A],
          ''  CHPP_ASSERT(*vlaOffset + out->data.length <= payloadSize);'' @ [CHR 0x0A],
          ''  if (out->data.length > 0 &&'' @ [CHR 0x0A]
            @ ''      *vlaOffset + out->data.length <= payloadSize) {'' @ [CHR 0x0A],
          ''    out->data.offset = *vlaOffset;'' @ [CHR 0x0A],
          ''    *vlaOffset += out->data.length;'' @ [CHR 0x0A],
          ''    for (size_t i = 0; i < in->n; i++) {'' @ [CHR 0x0A],
          ''      data[i] = in->data[i];'' @ [CHR 0x0A],
          ''    }'' @ [CHR 0x0A],
          ''  } else {'' @ [CHR 0x0A],
          ''    out->data.offset = 0;'' @ [CHR 0x0A],
          ''  }'' @ [CHR 0x0A]]"
  unfolding ex_nested_api_def ex_nested_outer_def ex_nested_inner_def ex_nested_items_def
    ex_vla_member_def
  by code_simp

lemma ex_vla_code_generated:
  "gen_vla_encoding_code ex_nested_api ex_vla_member ''n'' = Inr ex_vla_code"
  unfolding ex_nested_api_def ex_nested_outer_def ex_nested_inner_def ex_nested_items_def
    ex_vla_member_def ex_vla_code_def
  by code_simp

text \<open>
  C10. In the code generated for a \<open>var_len_array\<close> member, when the length field of
  the input is zero the stored byte length is zero, the \<open>else\<close> branch runs: the
  descriptor's offset is set to 0, the cursor \<open>*vlaOffset\<close> keeps its value and no
  element statement runs, also when the payload has room. (The \<open>CHPP_ASSERT\<close> before
  the test fails only if the cursor is already beyond the capacity; a build in which it
  stops the program then stops there, with the cursor and the elements untouched all the
  same.) And whenever the stored length is not both positive and within the capacity, a
  run that goes on ends with offset 0, the cursor unchanged and no element statement run:
  the offset is taken from the cursor only for a positive length that fits.
\<close>

theorem vla_zero_length_gets_zero_offset:
  assumes "gen_vla_encoding a m l = Inr out"
  shows "\<exists>t sz asg.
           get_chpp_member_sizeof_call a m = Inr sz
         \<and> gen_vla_encoding_code a m l = Inr (vla_encoding_code (name m) l t sz asg)
         \<and> squash (concat out) = squash (render_list (vla_encoding_code (name m) l t sz asg))
         \<and> (\<forall>env s. vars s (''in->'' @ l) = 0 \<longrightarrow>
               stored_length env s (name m) l sz = 0
             \<and> exec_list env (vla_encoding_code (name m) l t sz asg) s =
                 (if vars s ''*vlaOffset'' \<le> vars s ''payloadSize''
                  then Normal (s\<lparr> vars := (vars s)(length_of (name m) := 0,
                                                   offset_of (name m) := 0) \<rparr>)
                  else if assert_fatal env
                  then Aborted (s\<lparr> vars := (vars s)(length_of (name m) := 0),
                                   trace := trace s @ [AssertFailed] \<rparr>)
                  else Normal (s\<lparr> vars := (vars s)(length_of (name m) := 0,
                                                   offset_of (name m) := 0),
                                  trace := trace s @ [AssertFailed] \<rparr>)))
         \<and> (\<forall>env s s'.
               exec_list env (vla_encoding_code (name m) l t sz asg) s = Normal s'
               \<and> \<not> (0 < stored_length env s (name m) l sz
                     \<and> vars s ''*vlaOffset'' + stored_length env s (name m) l sz
                          \<le> vars s ''payloadSize'')
               \<longrightarrow> vars s' (offset_of (name m)) = 0
                   \<and> vars s' ''*vlaOffset'' = vars s ''*vlaOffset''
                   \<and> filter is_Ran (trace s') = filter is_Ran (trace s))"
proof -
  from gen_vla_encoding_code_Inr [OF assms] obtain t sz asg where g:
    "get_chpp_member_sizeof_call a m = Inr sz"
    "gen_vla_encoding_code a m l = Inr (vla_encoding_code (name m) l t sz asg)"
    "squash (concat out) = squash (render_list (vla_encoding_code (name m) l t sz asg))"
    by blast
  let ?code = "vla_encoding_code (name m) l t sz asg"
  have zero: "stored_length env s (name m) l sz = 0
      \<and> exec_list env ?code s =
         (if vars s ''*vlaOffset'' \<le> vars s ''payloadSize''
          then Normal (s\<lparr> vars := (vars s)(length_of (name m) := 0, offset_of (name m) := 0) \<rparr>)
          else if assert_fatal env
          then Aborted (s\<lparr> vars := (vars s)(length_of (name m) := 0),
                           trace := trace s @ [AssertFailed] \<rparr>)
          else Normal (s\<lparr> vars := (vars s)(length_of (name m) := 0, offset_of (name m) := 0),
                          trace := trace s @ [AssertFailed] \<rparr>))"
    if "vars s (''in->'' @ l) = 0" for env s
  proof -
    from that have z: "stored_length env s (name m) l sz = 0"
      by (simp add: stored_length_def)
    then have "\<not> (0 < stored_length env s (name m) l sz
              \<and> vars s ''*vlaOffset'' + stored_length env s (name m) l sz \<le> vars s ''payloadSize'')"
      by simp
    from vla_encoding_no_room [OF this, of t asg] z show ?thesis by simp
  qed
  have only: "vars s' (offset_of (name m)) = 0
      \<and> vars s' ''*vlaOffset'' = vars s ''*vlaOffset''
      \<and> filter is_Ran (trace s') = filter is_Ran (trace s)"
    if "exec_list env ?code s = Normal s'
        \<and> \<not> (0 < stored_length env s (name m) l sz
              \<and> vars s ''*vlaOffset'' + stored_length env s (name m) l sz \<le> vars s ''payloadSize'')"
    for env s s'
  proof -
    from that have n: "\<not> (0 < stored_length env s (name m) l sz
              \<and> vars s ''*vlaOffset'' + stored_length env s (name m) l sz \<le> vars s ''payloadSize'')"
      and e: "exec_list env ?code s = Normal s'" by simp_all
    from e show ?thesis
      unfolding vla_encoding_no_room [OF n, of t asg]
      by (auto simp: length_of_def offset_of_def split: if_splits)
  qed
  from g zero only show ?thesis by blast
qed

text \<open>The theorem at the example member, with length field 0 and room in the payload.\<close>

theorem vla_zero_length_witness:
  "gen_vla_encoding_code ex_nested_api ex_vla_member ''n'' = Inr ex_vla_code
   \<and> vars (ex_state [(''in->n'', 0), (''sizeof(uint8_t)'', 1), (''*vlaOffset'', 3),
                      (''payloadSize'', 8), (''out->data.offset'', 7)]) ''in->n'' = 0
   \<and> (case exec_list (ex_env True) ex_vla_code
              (ex_state [(''in->n'', 0), (''sizeof(uint8_t)'', 1), (''*vlaOffset'', 3),
                         (''payloadSize'', 8), (''out->data.offset'', 7)]) of
         Normal s' \<Rightarrow> vars s' ''out->data.offset'' = 0 \<and> vars s' ''out->data.length'' = 0
                      \<and> vars s' ''*vlaOffset'' = 3 \<and> trace s' = []
       | _ \<Rightarrow> False)"
proof -
  let ?st = "ex_state [(''in->n'', 0), (''sizeof(uint8_t)'', 1), (''*vlaOffset'', 3),
                       (''payloadSize'', 8), (''out->data.offset'', 7)]"
  have z: "vars ?st (''in->'' @ ''n'') = 0" by (simp add: ex_state_def)
  from vla_zero_length_gets_zero_offset [OF ex_vla_generated] obtain t sz asg where
    1: "gen_vla_encoding_code ex_nested_api ex_vla_member ''n''
          = Inr (vla_encoding_code (name ex_vla_member) ''n'' t sz asg)"
    and 2: "\<forall>env s. vars s (''in->'' @ ''n'') = 0 \<longrightarrow>
               stored_length env s (name ex_vla_member) ''n'' sz = 0
             \<and> exec_list env (vla_encoding_code (name ex_vla_member) ''n'' t sz asg) s =
                 (if vars s ''*vlaOffset'' \<le> vars s ''payloadSize''
                  then Normal (s\<lparr> vars := (vars s)(length_of (name ex_vla_member) := 0,
                                                   offset_of (name ex_vla_member) := 0) \<rparr>)
                  else if assert_fatal env
                  then Aborted (s\<lparr> vars := (vars s)(length_of (name ex_vla_member) := 0),
                                   trace := trace s @ [AssertFailed] \<rparr>)
                  else Normal (s\<lparr> vars := (vars s)(length_of (name ex_vla_member) := 0,
                                                   offset_of (name ex_vla_member) := 0),
                                  trace := trace s @ [AssertFailed] \<rparr>))"
    by blast
  from 1 ex_vla_code_generated
  have eq: "vla_encoding_code (name ex_vla_member) ''n'' t sz asg = ex_vla_code" by simp
  from 2 [unfolded eq] z
  have "exec_list (ex_env True) ex_vla_code ?st =
          (if vars ?st ''*vlaOffset'' \<le> vars ?st ''payloadSize''
           then Normal (?st\<lparr> vars := (vars ?st)(length_of (name ex_vla_member) := 0,
                                               offset_of (name ex_vla_member) := 0) \<rparr>)
           else if assert_fatal (ex_env True)
           then Aborted (?st\<lparr> vars := (vars ?st)(length_of (name ex_vla_member) := 0),
                               trace := trace ?st @ [AssertFailed] \<rparr>)
           else Normal (?st\<lparr> vars := (vars ?st)(length_of (name ex_vla_member) := 0,
                                               offset_of (name ex_vla_member) := 0),
                              trace := trace ?st @ [AssertFailed] \<rparr>))"
    by blast
  then have "case exec_list (ex_env True) ex_vla_code ?st of
         Normal s' \<Rightarrow> vars s' ''out->data.offset'' = 0 \<and> vars s' ''out->data.length'' = 0
                      \<and> vars s' ''*vlaOffset'' = 3 \<and> trace s' = []
       | _ \<Rightarrow> False"
    by (simp add: ex_state_def ex_vla_member_def length_of_def offset_of_def)
  with ex_vla_code_generated z show ?thesis by simp
qed

text \<open>
  C2 (as amended). In the code generated for a \<open>var_len_array\<close> member, when the cursor
  plus the stored byte length exceeds the capacity, the \<open>CHPP_ASSERT\<close> on that bound
  fails first. Where the assertion stops the program, encoding stops there. Where it does
  not, the \<open>else\<close> branch sets the descriptor's offset to zero and nothing else: the
  descriptor keeps the computed byte length, the cursor is not advanced, no element
  statement runs, and encoding goes on.
\<close>

theorem vla_overflow_zeroes_offset_only:
  assumes "gen_vla_encoding a m l = Inr out"
  shows "\<exists>t sz asg.
           get_chpp_member_sizeof_call a m = Inr sz
         \<and> gen_vla_encoding_code a m l = Inr (vla_encoding_code (name m) l t sz asg)
         \<and> squash (concat out) = squash (render_list (vla_encoding_code (name m) l t sz asg))
         \<and> (\<forall>env s. vars s ''payloadSize''
                        < vars s ''*vlaOffset'' + stored_length env s (name m) l sz \<longrightarrow>
               exec_list env (vla_encoding_code (name m) l t sz asg) s =
                 (if assert_fatal env
                  then Aborted (s\<lparr> vars := (vars s)(length_of (name m)
                                                     := stored_length env s (name m) l sz),
                                   trace := trace s @ [AssertFailed] \<rparr>)
                  else Normal (s\<lparr> vars := (vars s)(length_of (name m)
                                                     := stored_length env s (name m) l sz,
                                                   offset_of (name m) := 0),
                                  trace := trace s @ [AssertFailed] \<rparr>)))"
proof -
  from gen_vla_encoding_code_Inr [OF assms] obtain t sz asg where g:
    "get_chpp_member_sizeof_call a m = Inr sz"
    "gen_vla_encoding_code a m l = Inr (vla_encoding_code (name m) l t sz asg)"
    "squash (concat out) = squash (render_list (vla_encoding_code (name m) l t sz asg))"
    by blast
  have over: "exec_list env (vla_encoding_code (name m) l t sz asg) s =
                 (if assert_fatal env
                  then Aborted (s\<lparr> vars := (vars s)(length_of (name m)
                                                     := stored_length env s (name m) l sz),
                                   trace := trace s @ [AssertFailed] \<rparr>)
                  else Normal (s\<lparr> vars := (vars s)(length_of (name m)
                                                     := stored_length env s (name m) l sz,
                                                   offset_of (name m) := 0),
                                  trace := trace s @ [AssertFailed] \<rparr>))"
    if "vars s ''payloadSize'' < vars s ''*vlaOffset'' + stored_length env s (name m) l sz"
    for env s
  proof -
    from that have "\<not> (0 < stored_length env s (name m) l sz
              \<and> vars s ''*vlaOffset'' + stored_length env s (name m) l sz \<le> vars s ''payloadSize'')"
      by simp
    from vla_encoding_no_room [OF this, of t asg] that show ?thesis by simp
  qed
  from g over show ?thesis by blast
qed

text \<open>The theorem at the example member: 12 bytes at cursor 10 in a payload of 16.\<close>

theorem vla_overflow_witness:
  "gen_vla_encoding_code ex_nested_api ex_vla_member ''n'' = Inr ex_vla_code
   \<and> (case exec_list (ex_env False) ex_vla_code
              (ex_state [(''in->n'', 12), (''sizeof(uint8_t)'', 1), (''*vlaOffset'', 10),
                         (''payloadSize'', 16), (''out->data.offset'', 7)]) of
         Normal s' \<Rightarrow> vars s' ''out->data.offset'' = 0 \<and> vars s' ''out->data.length'' = 12
                      \<and> vars s' ''*vlaOffset'' = 10 \<and> trace s' = [AssertFailed]
       | _ \<Rightarrow> False)"
proof -
  let ?st = "ex_state [(''in->n'', 12), (''sizeof(uint8_t)'', 1), (''*vlaOffset'', 10),
                       (''payloadSize'', 16), (''out->data.offset'', 7)]"
  from vla_overflow_zeroes_offset_only [OF ex_vla_generated] obtain t sz asg where
    0: "get_chpp_member_sizeof_call ex_nested_api ex_vla_member = Inr sz"
    and 1: "gen_vla_encoding_code ex_nested_api ex_vla_member ''n''
          = Inr (vla_encoding_code (name ex_vla_member) ''n'' t sz asg)"
    and 2: "\<forall>env s. vars s ''payloadSize''
              < vars s ''*vlaOffset'' + stored_length env s (name ex_vla_member) ''n'' sz \<longrightarrow>
               exec_list env (vla_encoding_code (name ex_vla_member) ''n'' t sz asg) s =
                 (if assert_fatal env
                  then Aborted (s\<lparr> vars := (vars s)(length_of (name ex_vla_member)
                                    := stored_length env s (name ex_vla_member) ''n'' sz),
                                   trace := trace s @ [AssertFailed] \<rparr>)
                  else Normal (s\<lparr> vars := (vars s)(length_of (name ex_vla_member)
                                    := stored_length env s (name ex_vla_member) ''n'' sz,
                                                   offset_of (name ex_vla_member) := 0),
                                  trace := trace s @ [AssertFailed] \<rparr>))"
    by blast
  have "get_chpp_member_sizeof_call ex_nested_api ex_vla_member = Inr ''sizeof(uint8_t)''"
    unfolding ex_nested_api_def ex_nested_outer_def ex_nested_inner_def ex_nested_items_def
      ex_vla_member_def
    by code_simp
  with 0 have sz: "sz = ''sizeof(uint8_t)''" by simp
  from 1 ex_vla_code_generated
  have eq: "vla_encoding_code (name ex_vla_member) ''n'' t sz asg = ex_vla_code" by simp
  have len: "stored_length (ex_env False) ?st (name ex_vla_member) ''n'' ''sizeof(uint8_t)'' = 12"
    by (simp add: stored_length_def ex_state_def ex_env_def length_of_def)
  then have over: "vars ?st ''payloadSize''
      < vars ?st ''*vlaOffset'' + stored_length (ex_env False) ?st (name ex_vla_member) ''n'' sz"
    by (simp add: sz ex_state_def)
  from 2 [unfolded eq] over
  have "exec_list (ex_env False) ex_vla_code ?st =
          (if assert_fatal (ex_env False)
           then Aborted (?st\<lparr> vars := (vars ?st)(length_of (name ex_vla_member)
                        := stored_length (ex_env False) ?st (name ex_vla_member) ''n'' sz),
                               trace := trace ?st @ [AssertFailed] \<rparr>)
           else Normal (?st\<lparr> vars := (vars ?st)(length_of (name ex_vla_member)
                        := stored_length (ex_env False) ?st (name ex_vla_member) ''n'' sz,
                                               offset_of (name ex_vla_member) := 0),
                              trace := trace ?st @ [AssertFailed] \<rparr>))"
    by blast
  then have "case exec_list (ex_env False) ex_vla_code ?st of
         Normal s' \<Rightarrow> vars s' ''out->data.offset'' = 0 \<and> vars s' ''out->data.length'' = 12
                      \<and> vars s' ''*vlaOffset'' = 10 \<and> trace s' = [AssertFailed]
       | _ \<Rightarrow> False"
    using len
    by (simp add: sz ex_state_def ex_vla_member_def length_of_def offset_of_def ex_env_def)
  with ex_vla_code_generated show ?thesis by simp
qed

text \<open>
  C2 as the specification states it fails: in that run the descriptor's length stays 12,
  not zero, when assertions do nothing; and when assertions stop the program the run is
  aborted before the offset is written.
\<close>

theorem vla_overflow_keeps_length_or_aborts:
  "gen_vla_encoding_code ex_nested_api ex_vla_member ''n'' = Inr ex_vla_code
   \<and> vars (ex_state [(''in->n'', 12), (''sizeof(uint8_t)'', 1), (''*vlaOffset'', 10),
                      (''payloadSize'', 16), (''out->data.offset'', 7)]) ''payloadSize''
       < vars (ex_state [(''in->n'', 12), (''sizeof(uint8_t)'', 1), (''*vlaOffset'', 10),
                         (''payloadSize'', 16), (''out->data.offset'', 7)]) ''*vlaOffset'' + 12 * 1
   \<and> (case exec_list (ex_env False) ex_vla_code
              (ex_state [(''in->n'', 12), (''sizeof(uint8_t)'', 1), (''*vlaOffset'', 10),
                         (''payloadSize'', 16), (''out->data.offset'', 7)]) of
         Normal s' \<Rightarrow> vars s' ''out->data.length'' = 12 \<and> vars s' ''out->data.length'' \<noteq> 0
       | _ \<Rightarrow> False)
   \<and> (case exec_list (ex_env True) ex_vla_code
              (ex_state [(''in->n'', 12), (''sizeof(uint8_t)'', 1), (''*vlaOffset'', 10),
                         (''payloadSize'', 16), (''out->data.offset'', 7)]) of
         Aborted s' \<Rightarrow> vars s' ''out->data.offset'' = 7
       | _ \<Rightarrow> False)"
  using ex_vla_code_generated
  by (simp add: ex_vla_code_def ex_state_def ex_env_def vla_encoding_code_def store_def
      failed_assert_def truth_def)

subsection \<open>Allocation entry points: the generated code\<close>

lemma encode_allocation_text:
  assumes "gen_encode_allocation_function a chre_type = Inr out"
  shows "\<exists>sig sizeof_call t v enc.
           get_chpp_sizeof_call a chre_type = Inr sizeof_call
         \<and> gen_encode_allocation_function_code a chre_type
             = Inr (sig, encode_allocation_body sizeof_call t v enc)
         \<and> squash (concat out)
             = squash (render_function sig (encode_allocation_body sizeof_call t v enc))"
proof -
  from assms obtain sig sizeof_call t struct_info enc where b:
    "gen_encode_allocation_function_signature a chre_type = Inr sig"
    "get_chpp_sizeof_call a chre_type = Inr sizeof_call"
    "get_chpp_type_from_chre a chre_type = Inr t"
    "lookup_type a chre_type = Inr struct_info"
    "get_encoding_function_name a chre_type = Inr enc"
    by (auto simp: gen_encode_allocation_function_def ebind_Inr_iff)
  with assms have sq: "squash (concat out)
             = squash (render_function sig
                 (encode_allocation_body sizeof_call t (has_vla_member struct_info) enc))"
    by (auto simp: gen_encode_allocation_function_def encode_allocation_body_def
        render_function_def squash_Cons paren_def)
  from b have c: "gen_encode_allocation_function_code a chre_type
             = Inr (sig, encode_allocation_body sizeof_call t (has_vla_member struct_info) enc)"
    by (simp add: gen_encode_allocation_function_code_def)
  show ?thesis
    by (intro exI conjI) (rule b(2), rule c, rule sq)
qed

lemma encode_allocation_fails:
  assumes "vars s ''out'' \<noteq> 0" "vars s ''outSize'' \<noteq> 0"
    and "chppMalloc env (vars s sizeof_call mod 2 ^ bits env ''payloadSize'') = 0"
  shows "exec_list env (encode_allocation_body sizeof_call t v enc) s =
     Returned 0 (s\<lparr> vars := (vars s)(''payloadSize''
                                     := vars s sizeof_call mod 2 ^ bits env ''payloadSize'',
                                   ''*out'' := 0) \<rparr>)"
  using assms
  by (simp add: encode_allocation_body_def store_def truth_def)

lemma ex_alloc_generated:
  "gen_encode_allocation_function ex_nested_api ''chreFooInner'' =
     Inr [''bool chppFooInnerFromChre('' @ [CHR 0x0A],
          ''    const struct chreFooInner *in,'' @ [CHR 0x0A],
          ''    struct ChppFooInner **out,'' @ [CHR 0x0A],
          ''    size_t *outSize)'',
          '' {'' @ [CHR 0x0A],
          ''  CHPP_NOT_NULL(out);'' @ [CHR 0x0A],
          ''  CHPP_NOT_NULL(outSize);'' @ [CHR 0x0A, CHR 0x0A],
          ''  size_t payloadSize = chppFooSizeOfInnerFromChre(in);'' @ [CHR 0x0A],
          ''  *out = chppMalloc(payloadSize);'' @ [CHR 0x0A],
          ''  if (*out != NULL) {'' @ [CHR 0x0A],
          ''    uint8_t *payload = (uint8_t *) *out;'' @ [CHR 0x0A],
          ''    uint16_t vlaOffset = sizeof(struct ChppFooInner);'' @ [CHR 0x0A],
          ''    chppFooConvertInnerFromChre(in, *out'',
          '', payload, payloadSize, &vlaOffset'',
          '');'' @ [CHR 0x0A],
          ''    *outSize = payloadSize;'' @ [CHR 0x0A],
          ''    return true;'' @ [CHR 0x0A],
          ''  }'' @ [CHR 0x0A],
          ''  return false;'' @ [CHR 0x0A] @ ''}'' @ [CHR 0x0A]]"
  unfolding ex_nested_api_def ex_nested_outer_def ex_nested_inner_def ex_nested_items_def
  by code_simp

lemma ex_alloc_code_generated:
  "gen_encode_allocation_function_code ex_nested_api ''chreFooInner'' =
     Inr ([''bool chppFooInnerFromChre('' @ [CHR 0x0A],
           ''    const struct chreFooInner *in,'' @ [CHR 0x0A],
           ''    struct ChppFooInner **out,'' @ [CHR 0x0A],
           ''    size_t *outSize)''], ex_alloc_body)"
  unfolding ex_nested_api_def ex_nested_outer_def ex_nested_inner_def ex_nested_items_def
    ex_alloc_body_def
  by code_simp

text \<open>
  C3 (as amended). In the allocation entry point generated for a root type, when
  \<open>chppMalloc\<close> fails (and the two output pointers are not null, as \<open>CHPP_NOT_NULL\<close>
  requires), the function returns false, no encoder runs and the output size \<open>*outSize\<close>
  is left as it was; the output buffer pointer \<open>*out\<close> is overwritten with \<open>NULL\<close>,
  since the result of the allocation is stored in it before it is tested. Nothing else of
  the caller's is written (\<open>payloadSize\<close> is a local variable).
\<close>

theorem allocation_failure_returns_false:
  assumes "gen_encode_allocation_function a chre_type = Inr out"
  shows "\<exists>sig sizeof_call t v enc.
           get_chpp_sizeof_call a chre_type = Inr sizeof_call
         \<and> gen_encode_allocation_function_code a chre_type
             = Inr (sig, encode_allocation_body sizeof_call t v enc)
         \<and> squash (concat out)
             = squash (render_function sig (encode_allocation_body sizeof_call t v enc))
         \<and> (\<forall>env s. vars s ''out'' \<noteq> 0 \<and> vars s ''outSize'' \<noteq> 0
                   \<and> chppMalloc env (vars s sizeof_call mod 2 ^ bits env ''payloadSize'') = 0
               \<longrightarrow> exec_list env (encode_allocation_body sizeof_call t v enc) s =
                     Returned 0
                       (s\<lparr> vars := (vars s)(''payloadSize''
                                  := vars s sizeof_call mod 2 ^ bits env ''payloadSize'',
                                ''*out'' := 0) \<rparr>))"
proof -
  from encode_allocation_text [OF assms] obtain sig sizeof_call t v enc where g:
    "get_chpp_sizeof_call a chre_type = Inr sizeof_call"
    "gen_encode_allocation_function_code a chre_type
       = Inr (sig, encode_allocation_body sizeof_call t v enc)"
    "squash (concat out)
       = squash (render_function sig (encode_allocation_body sizeof_call t v enc))"
    by blast
  have "exec_list env (encode_allocation_body sizeof_call t v enc) s =
          Returned 0 (s\<lparr> vars := (vars s)(''payloadSize''
                                  := vars s sizeof_call mod 2 ^ bits env ''payloadSize'',
                                ''*out'' := 0) \<rparr>)"
    if "vars s ''out'' \<noteq> 0 \<and> vars s ''outSize'' \<noteq> 0
        \<and> chppMalloc env (vars s sizeof_call mod 2 ^ bits env ''payloadSize'') = 0"
    for env s
    using that by (intro encode_allocation_fails) simp_all
  with g show ?thesis by blast
qed

text \<open>The theorem at the example entry point, with an allocator that fails.\<close>

theorem allocation_failure_witness:
  "gen_encode_allocation_function_code ex_nested_api ''chreFooInner''
     = Inr ([''bool chppFooInnerFromChre('' @ [CHR 0x0A],
             ''    const struct chreFooInner *in,'' @ [CHR 0x0A],
             ''    struct ChppFooInner **out,'' @ [CHR 0x0A],
             ''    size_t *outSize)''], ex_alloc_body)
   \<and> chppMalloc (ex_env True) 6 = 0
   \<and> (case exec_list (ex_env True) ex_alloc_body ex_alloc_state of
         Returned r s' \<Rightarrow> r = 0 \<and> vars s' ''*outSize'' = 9 \<and> vars s' ''*out'' = 0
                          \<and> trace s' = []
       | _ \<Rightarrow> False)"
proof -
  from allocation_failure_returns_false [OF ex_alloc_generated] obtain sig sizeof_call t v enc
    where 0: "get_chpp_sizeof_call ex_nested_api ''chreFooInner'' = Inr sizeof_call"
    and 1: "gen_encode_allocation_function_code ex_nested_api ''chreFooInner''
             = Inr (sig, encode_allocation_body sizeof_call t v enc)"
    and 2: "\<forall>env s. vars s ''out'' \<noteq> 0 \<and> vars s ''outSize'' \<noteq> 0
                   \<and> chppMalloc env (vars s sizeof_call mod 2 ^ bits env ''payloadSize'') = 0
               \<longrightarrow> exec_list env (encode_allocation_body sizeof_call t v enc) s =
                     Returned 0
                       (s\<lparr> vars := (vars s)(''payloadSize''
                                  := vars s sizeof_call mod 2 ^ bits env ''payloadSize'',
                                ''*out'' := 0) \<rparr>)"
    by blast
  have "get_chpp_sizeof_call ex_nested_api ''chreFooInner''
          = Inr ''chppFooSizeOfInnerFromChre(in)''"
    unfolding ex_nested_api_def ex_nested_outer_def ex_nested_inner_def ex_nested_items_def
    by code_simp
  with 0 have sc: "sizeof_call = ''chppFooSizeOfInnerFromChre(in)''" by simp
  from 1 ex_alloc_code_generated
  have eq: "encode_allocation_body sizeof_call t v enc = ex_alloc_body" by simp
  have pre: "vars ex_alloc_state ''out'' \<noteq> 0 \<and> vars ex_alloc_state ''outSize'' \<noteq> 0
      \<and> chppMalloc (ex_env True)
            (vars ex_alloc_state sizeof_call mod 2 ^ bits (ex_env True) ''payloadSize'') = 0"
    by (simp add: sc ex_alloc_state_def ex_state_def ex_env_def)
  from 2 [unfolded eq] pre
  have "exec_list (ex_env True) ex_alloc_body ex_alloc_state =
          Returned 0 (ex_alloc_state\<lparr> vars := (vars ex_alloc_state)(''payloadSize''
              := vars ex_alloc_state sizeof_call mod 2 ^ bits (ex_env True) ''payloadSize'',
                 ''*out'' := 0) \<rparr>)"
    by blast
  then have "case exec_list (ex_env True) ex_alloc_body ex_alloc_state of
         Returned r s' \<Rightarrow> r = 0 \<and> vars s' ''*outSize'' = 9 \<and> vars s' ''*out'' = 0
                          \<and> trace s' = []
       | _ \<Rightarrow> False"
    by (simp add: ex_alloc_state_def ex_state_def)
  moreover have "chppMalloc (ex_env True) 6 = 0" by (simp add: ex_env_def)
  ultimately show ?thesis using ex_alloc_code_generated by simp
qed

text \<open>
  C3 as the specification states it fails: in that run the caller's \<open>*out\<close> held 5 before
  the call and holds \<open>NULL\<close> after it.
\<close>

theorem allocation_failure_overwrites_out:
  "gen_encode_allocation_function_code ex_nested_api ''chreFooInner''
     = Inr ([''bool chppFooInnerFromChre('' @ [CHR 0x0A],
             ''    const struct chreFooInner *in,'' @ [CHR 0x0A],
             ''    struct ChppFooInner **out,'' @ [CHR 0x0A],
             ''    size_t *outSize)''], ex_alloc_body)
   \<and> chppMalloc (ex_env True) 6 = 0
   \<and> vars ex_alloc_state ''*out'' = 5
   \<and> (case exec_list (ex_env True) ex_alloc_body ex_alloc_state of
         Returned r s' \<Rightarrow> r = 0 \<and> vars s' ''*out'' = 0
                          \<and> vars s' ''*out'' \<noteq> vars ex_alloc_state ''*out''
       | _ \<Rightarrow> False)"
  using ex_alloc_code_generated
  by (simp add: ex_alloc_body_def ex_alloc_state_def ex_state_def ex_env_def
      encode_allocation_body_def store_def failed_assert_def truth_def)

subsection \<open>Union variants: the generated code\<close>

text \<open>
  A mapped field whose case can be generated: it names a member of the union, and if
  that member is of a nested type, the type is in the graph and the name of its encoder
  can be formed.
\<close>

definition mapped_field_resolves :: "api \<Rightarrow> entry \<Rightarrow> string \<Rightarrow> bool" where
  "mapped_field_resolves a info f \<longleftrightarrow>
     (case find_member f (members info) of
        None \<Rightarrow> False
      | Some nm \<Rightarrow>
          is_nested_type nm \<longrightarrow>
            (case nested_entry a nm of
               Inl _ \<Rightarrow> False
             | Inr (k, e) \<Rightarrow> (case get_encoding_function_name a k of
                               Inl _ \<Rightarrow> False | Inr _ \<Rightarrow> True)))"

lemma assignment_resolves:
  assumes "find_member f (members info) = Some nm" "mapped_field_resolves a info f"
  shows "\<exists>asg. get_assignment_statement_for_field a nm il c = Inr asg"
  using assms
  by (auto simp: mapped_field_resolves_def get_assignment_statement_for_field_def Let_def
      split: sum.splits)

lemma union_variant_case_code_succeeds:
  assumes "\<forall>(v, f) \<in> set mapping. mapped_field_resolves a info f"
  shows "\<exists>cs. union_variant_case_code a t info m mapping = Inr cs"
  using assms
proof (induction mapping)
  case Nil
  then show ?case by simp
next
  case (Cons x mapping)
  obtain v f where x: "x = (v, f)" by (cases x)
  from Cons.prems x have r: "mapped_field_resolves a info f" by simp
  then obtain nm where nm: "find_member f (members info) = Some nm"
    by (auto simp: mapped_field_resolves_def split: option.splits)
  from assignment_resolves [OF nm r] obtain asg where
    "get_assignment_statement_for_field a nm False (Some (name m)) = Inr asg" by blast
  moreover from Cons obtain cs where "union_variant_case_code a t info m mapping = Inr cs"
    by auto
  ultimately show ?case using x nm by simp
qed

lemma union_variant_case_code_text:
  "(case union_variant_cases a t info m mapping of
      Inl err \<Rightarrow> union_variant_case_code a t info m mapping = Inl err
    | Inr ls \<Rightarrow> (\<exists>cs. union_variant_case_code a t info m mapping = Inr cs
                   \<and> squash (concat ls)
                       = squash (render_cases (map (\<lambda>(v, asg). (v, [Opaque asg])) cs))))"
proof (induction mapping)
  case Nil
  then show ?case by simp
next
  case (Cons x mapping)
  obtain v f where x: "x = (v, f)" by (cases x)
  show ?case
  proof (cases "find_member f (members info)")
    case None
    with x show ?thesis by simp
  next
    case (Some nm)
    show ?thesis
    proof (cases "get_assignment_statement_for_field a nm False (Some (name m))")
      case (Inl e)
      with x Some show ?thesis by simp
    next
      case asg: (Inr asg)
      show ?thesis
      proof (cases "union_variant_cases a t info m mapping")
        case (Inl e)
        with Cons x Some asg show ?thesis by simp
      next
        case (Inr ls)
        with Cons obtain cs where "union_variant_case_code a t info m mapping = Inr cs"
          "squash (concat ls) = squash (render_cases (map (\<lambda>(v, asg). (v, [Opaque asg])) cs))"
          by auto
        with x Some asg Inr show ?thesis by (simp add: squash_Cons)
      qed
    qed
  qed
qed

lemma union_variant_case_code_members:
  "union_variant_case_code a t info m mapping = Inr cs \<Longrightarrow>
     list_all2 (\<lambda>(v, f) (v', asg). v' = v
        \<and> (\<exists>nm. find_member f (members info) = Some nm
              \<and> get_assignment_statement_for_field a nm False (Some (name m)) = Inr asg))
       mapping cs"
proof (induction mapping arbitrary: cs)
  case Nil
  then show ?case by simp
next
  case (Cons x mapping)
  obtain v f where x: "x = (v, f)" by (cases x)
  from Cons.prems x obtain nm asg rest where
    "find_member f (members info) = Some nm"
    "get_assignment_statement_for_field a nm False (Some (name m)) = Inr asg"
    "union_variant_case_code a t info m mapping = Inr rest" "cs = (v, asg) # rest"
    by (auto split: option.splits simp: ebind_Inr_iff)
  with Cons.IH [of rest] x show ?case by simp
qed

lemma union_variant_text:
  "(case gen_union_variant_conversion_code a m d mapping of
      Inl err \<Rightarrow> gen_union_variant_code a m d mapping = Inl err
    | Inr out \<Rightarrow> (\<exists>cs. gen_union_variant_code a m d mapping
                         = Inr (union_variant_code (name m) d cs)
                    \<and> squash (concat out)
                        = squash (render_list (union_variant_code (name m) d cs))))"
proof (cases "nested_entry a m")
  case (Inl e)
  then show ?thesis
    by (simp add: gen_union_variant_conversion_code_def gen_union_variant_code_def)
next
  case (Inr ti)
  obtain t info where ti: "ti = (t, info)" by (cases ti)
  show ?thesis
  proof (cases "union_variant_cases a t info m mapping")
    case (Inl e)
    with union_variant_case_code_text [of a t info m mapping] Inr ti show ?thesis
      by (simp add: gen_union_variant_conversion_code_def gen_union_variant_code_def)
  next
    case ls: (Inr ls)
    with union_variant_case_code_text [of a t info m mapping] obtain cs where cs:
      "union_variant_case_code a t info m mapping = Inr cs"
      "squash (concat ls) = squash (render_cases (map (\<lambda>(v, asg). (v, [Opaque asg])) cs))"
      by auto
    let ?out = "[''  memset(&out->'' @ name m @ '', 0, sizeof(out->'' @ name m @ ''));''
               @ [CHR 0x0A],
             ''  switch (in->'' @ d @ '') {'' @ [CHR 0x0A]]
            @ ls
            @ [''    default:'' @ [CHR 0x0A] @ ''      CHPP_ASSERT(false);'' @ [CHR 0x0A]
                 @ ''  }'' @ [CHR 0x0A]]"
    have "gen_union_variant_conversion_code a m d mapping = Inr ?out"
      using Inr ti ls by (simp add: gen_union_variant_conversion_code_def)
    moreover
    have "squash (concat ?out) = squash (render_list (union_variant_code (name m) d cs))"
      using cs(2) by (simp add: union_variant_code_def squash_Cons)
    ultimately obtain out where o: "gen_union_variant_conversion_code a m d mapping = Inr out"
      and sq: "squash (concat out) = squash (render_list (union_variant_code (name m) d cs))"
      by blast
    have c: "gen_union_variant_code a m d mapping = Inr (union_variant_code (name m) d cs)"
      using Inr ti cs(1) by (simp add: gen_union_variant_code_def)
    from sq have "\<exists>cs'. gen_union_variant_code a m d mapping
                         = Inr (union_variant_code (name m) d cs')
                    \<and> squash (concat out)
                        = squash (render_list (union_variant_code (name m) d cs'))"
      using c by blast
    then show ?thesis
      unfolding o by simp
  qed
qed

lemma exec_cases_mapped:
  "exec_cases env dv (map (\<lambda>(v, asg). (v, [Opaque asg])) cs) [Assert FalseE] s =
     (case find (\<lambda>(v, asg). label_value env v = dv) cs of
        Some (v, asg) \<Rightarrow> Normal (run_opaque env asg None s)
      | None \<Rightarrow> failed_assert env s)"
  by (induction cs) (auto simp: failed_assert_def Let_def split: prod.splits)

lemma union_variant_run:
  "exec_list env (union_variant_code nm d cs) s =
     (case find (\<lambda>(v, asg). label_value env v = vars s (''in->'' @ d)) cs of
        Some (v, asg) \<Rightarrow> Normal (run_opaque env asg None (zero_storage (''out->'' @ nm) s))
      | None \<Rightarrow> failed_assert env (zero_storage (''out->'' @ nm) s))"
proof -
  have "vars (zero_storage (''out->'' @ nm) s) (''in->'' @ d) = vars s (''in->'' @ d)"
    by (simp add: zero_storage_def)
  then show ?thesis
    by (auto simp: union_variant_code_def exec_cases_mapped zero_storage_def failed_assert_def
        Let_def split: option.splits prod.splits)
qed

lemma union_variant_code_inj:
  assumes "union_variant_code nm d cs = union_variant_code nm d cs'"
  shows "cs = cs'"
proof -
  have "inj (\<lambda>(v :: string, asg). (v, [Opaque asg]))"
    by (auto simp: inj_on_def)
  with assms show ?thesis
    by (simp add: union_variant_code_def inj_map_eq_map)
qed

lemma ex_union_entry_found:
  "nested_entry (ex_union_api [(''1'', ''a''), (''2'', ''b'')])
       (ex_union_member [(''1'', ''a''), (''2'', ''b'')]) = Inr (''chreFooValue'', ex_union_entry)"
  unfolding ex_union_api_def ex_union_member_def ex_union_entry_def by code_simp

lemma ex_union_code_generated:
  "gen_union_variant_code (ex_union_api [(''1'', ''a''), (''2'', ''b'')])
       (ex_union_member [(''1'', ''a''), (''2'', ''b'')]) ''kind'' [(''1'', ''a''), (''2'', ''b'')]
     = Inr ex_union_code"
  unfolding ex_union_api_def ex_union_member_def ex_union_entry_def ex_union_code_def
  by code_simp

text \<open>
  C8 (as amended). For a member with a \<open>union_variant\<close> annotation, of a union type in
  the graph, whose mapped fields all name members of the union and, where such a member
  is of a nested type, the name of that type's encoder can be formed: the generator
  succeeds, whatever values of the discriminator the mapping leaves out. The generated
  code first clears the storage of the union field, then takes the case whose label has
  the value of the discriminator in the input and runs the assignment of the member mapped
  to it; for a value without a case it runs \<open>CHPP_ASSERT(false)\<close>, which stops the
  program where assertions are fatal.
\<close>

theorem union_variant_generates_switch:
  assumes "nested_entry a m = Inr (t, info)"
    and "\<forall>(v, f) \<in> set mapping. mapped_field_resolves a info f"
  shows "\<exists>out cs.
           gen_union_variant_conversion_code a m d mapping = Inr out
         \<and> gen_union_variant_code a m d mapping = Inr (union_variant_code (name m) d cs)
         \<and> squash (concat out) = squash (render_list (union_variant_code (name m) d cs))
         \<and> list_all2 (\<lambda>(v, f) (v', asg). v' = v
               \<and> (\<exists>nm. find_member f (members info) = Some nm
                     \<and> get_assignment_statement_for_field a nm False (Some (name m)) = Inr asg))
             mapping cs
         \<and> (\<forall>env s. exec_list env (union_variant_code (name m) d cs) s =
               (case find (\<lambda>(v, asg). label_value env v = vars s (''in->'' @ d)) cs of
                  Some (v, asg) \<Rightarrow>
                    Normal (run_opaque env asg None (zero_storage (''out->'' @ name m) s))
                | None \<Rightarrow> failed_assert env (zero_storage (''out->'' @ name m) s)))"
proof -
  from union_variant_case_code_succeeds [OF assms(2), of t m] obtain cs where
    cs: "union_variant_case_code a t info m mapping = Inr cs" by blast
  with assms(1) have c: "gen_union_variant_code a m d mapping
      = Inr (union_variant_code (name m) d cs)"
    by (simp add: gen_union_variant_code_def)
  from union_variant_text [of a m d mapping] c obtain out where
    o: "gen_union_variant_conversion_code a m d mapping = Inr out"
    and sq: "squash (concat out) = squash (render_list (union_variant_code (name m) d cs))"
    by (cases "gen_union_variant_conversion_code a m d mapping") auto
  note mem = union_variant_case_code_members [OF cs]
  show ?thesis
    by (intro exI conjI allI) (rule o, rule c, rule sq, rule mem, rule union_variant_run)
qed

text \<open>
  The theorem at the example union with the mapping of 1 to \<open>a\<close> and 2 to \<open>b\<close>: the
  text generated, a run with discriminator 3 and a run with discriminator 2.
\<close>

theorem union_variant_witness:
  "nested_entry (ex_union_api [(''1'', ''a''), (''2'', ''b'')])
       (ex_union_member [(''1'', ''a''), (''2'', ''b'')]) = Inr (''chreFooValue'', ex_union_entry)
   \<and> gen_union_variant_conversion_code (ex_union_api [(''1'', ''a''), (''2'', ''b'')])
        (ex_union_member [(''1'', ''a''), (''2'', ''b'')]) ''kind'' [(''1'', ''a''), (''2'', ''b'')]
     = Inr [''  memset(&out->u, 0, sizeof(out->u));'' @ [CHR 0x0A],
            ''  switch (in->kind) {'' @ [CHR 0x0A],
            ''    case 1:'' @ [CHR 0x0A], ''      out->u.a = in->u.a;'' @ [CHR 0x0A],
            ''      break;'' @ [CHR 0x0A],
            ''    case 2:'' @ [CHR 0x0A], ''      out->u.b = in->u.b;'' @ [CHR 0x0A],
            ''      break;'' @ [CHR 0x0A],
            ''    default:'' @ [CHR 0x0A] @ ''      CHPP_ASSERT(false);'' @ [CHR 0x0A]
              @ ''  }'' @ [CHR 0x0A]]
   \<and> (case exec_list (ex_env True) ex_union_code
              (ex_state [(''in->kind'', 3), (''out->u.a'', 9), (''out->u.b'', 8)]) of
         Aborted s' \<Rightarrow> trace s' = [Zeroed ''out->u'', AssertFailed]
       | _ \<Rightarrow> False)
   \<and> (case exec_list (ex_env True) ex_union_code
              (ex_state [(''in->kind'', 2), (''out->u.a'', 9), (''out->u.b'', 8)]) of
         Normal s' \<Rightarrow> trace s' = [Zeroed ''out->u'',
                                   Ran (''out->u.b = in->u.b;'' @ [CHR 0x0A]) None]
                      \<and> vars s' ''out->u.a'' = 0
       | _ \<Rightarrow> False)"
proof -
  let ?mp = "[(''1'', ''a''), (''2'', ''b'')]"
  let ?a = "ex_union_api ?mp" and ?m = "ex_union_member ?mp"
  have r: "\<forall>(v, f) \<in> set ?mp. mapped_field_resolves ?a ex_union_entry f"
    by (simp add: mapped_field_resolves_def ex_union_entry_def)
  from union_variant_generates_switch [OF ex_union_entry_found r, of "''kind''"]
  obtain out cs where
    1: "gen_union_variant_code ?a ?m ''kind'' ?mp = Inr (union_variant_code (name ?m) ''kind'' cs)"
    and 2: "\<forall>env s. exec_list env (union_variant_code (name ?m) ''kind'' cs) s =
               (case find (\<lambda>(v, asg). label_value env v = vars s (''in->'' @ ''kind'')) cs of
                  Some (v, asg) \<Rightarrow>
                    Normal (run_opaque env asg None (zero_storage (''out->'' @ name ?m) s))
                | None \<Rightarrow> failed_assert env (zero_storage (''out->'' @ name ?m) s))"
    by blast
  from 1 ex_union_code_generated
  have eq: "union_variant_code (name ?m) ''kind'' cs = ex_union_code" by simp
  have nm: "name ?m = ''u''" by (simp add: ex_union_member_def)
  from eq [unfolded nm ex_union_code_def]
  have cs: "cs = [(''1'', ''out->u.a = in->u.a;'' @ [CHR 0x0A]),
                  (''2'', ''out->u.b = in->u.b;'' @ [CHR 0x0A])]"
    by (rule union_variant_code_inj)
  have g: "gen_union_variant_conversion_code ?a ?m ''kind'' ?mp
     = Inr [''  memset(&out->u, 0, sizeof(out->u));'' @ [CHR 0x0A],
            ''  switch (in->kind) {'' @ [CHR 0x0A],
            ''    case 1:'' @ [CHR 0x0A], ''      out->u.a = in->u.a;'' @ [CHR 0x0A],
            ''      break;'' @ [CHR 0x0A],
            ''    case 2:'' @ [CHR 0x0A], ''      out->u.b = in->u.b;'' @ [CHR 0x0A],
            ''      break;'' @ [CHR 0x0A],
            ''    default:'' @ [CHR 0x0A] @ ''      CHPP_ASSERT(false);'' @ [CHR 0x0A]
              @ ''  }'' @ [CHR 0x0A]]"
    unfolding ex_union_api_def ex_union_member_def ex_union_entry_def by code_simp
  from 2 [unfolded eq]
  have run: "\<And>env s. exec_list env ex_union_code s =
               (case find (\<lambda>(v, asg). label_value env v = vars s (''in->'' @ ''kind'')) cs of
                  Some (v, asg) \<Rightarrow>
                    Normal (run_opaque env asg None (zero_storage (''out->'' @ name ?m) s))
                | None \<Rightarrow> failed_assert env (zero_storage (''out->'' @ name ?m) s))"
    by blast
  have a: "case exec_list (ex_env True) ex_union_code
              (ex_state [(''in->kind'', 3), (''out->u.a'', 9), (''out->u.b'', 8)]) of
         Aborted s' \<Rightarrow> trace s' = [Zeroed ''out->u'', AssertFailed]
       | _ \<Rightarrow> False"
    by (simp add: run cs ex_env_def ex_state_def failed_assert_def zero_storage_def
        ex_union_member_def)
  have b: "case exec_list (ex_env True) ex_union_code
              (ex_state [(''in->kind'', 2), (''out->u.a'', 9), (''out->u.b'', 8)]) of
         Normal s' \<Rightarrow> trace s' = [Zeroed ''out->u'',
                                   Ran (''out->u.b = in->u.b;'' @ [CHR 0x0A]) None]
                      \<and> vars s' ''out->u.a'' = 0
       | _ \<Rightarrow> False"
    by (simp add: run cs ex_env_def ex_state_def run_opaque_def zero_storage_def
        ex_union_member_def)
  from ex_union_entry_found g a b show ?thesis by simp
qed

text \<open>
  C8 as the specification states it fails: with all mapped fields naming members of the
  union, the generator raises the naming error when a mapped member is of a nested type
  whose name gives no encoder name.
\<close>

theorem union_variant_nested_union_member_fails:
  "nested_entry ex_nested_union_api (ex_union_member [(''1'', ''a''), (''2'', ''b'')])
     = Inr (''chreFooValue'', ex_nested_union_entry)
   \<and> ''a'' \<in> name ` set (members ex_nested_union_entry)
   \<and> ''b'' \<in> name ` set (members ex_nested_union_entry)
   \<and> gen_union_variant_conversion_code ex_nested_union_api
        (ex_union_member [(''1'', ''a''), (''2'', ''b'')]) ''kind'' [(''1'', ''a''), (''2'', ''b'')]
     = Inl (UnexpectedStructureName ''otherChoice'')"
proof -
  have 1: "nested_entry ex_nested_union_api (ex_union_member [(''1'', ''a''), (''2'', ''b'')])
     = Inr (''chreFooValue'', ex_nested_union_entry)"
    unfolding ex_nested_union_api_def ex_union_member_def ex_nested_union_entry_def
    by code_simp
  have 2: "gen_union_variant_conversion_code ex_nested_union_api
        (ex_union_member [(''1'', ''a''), (''2'', ''b'')]) ''kind'' [(''1'', ''a''), (''2'', ''b'')]
     = Inl (UnexpectedStructureName ''otherChoice'')"
    unfolding ex_nested_union_api_def ex_union_member_def ex_nested_union_entry_def
    by code_simp
  from 1 2 show ?thesis by (simp add: ex_nested_union_entry_def)
qed

subsection \<open>Size functions: the generated code\<close>

lemma sizeof_annotation_terms_text:
  "(\<forall>err. sizeof_annotation_lines a ct p m anns = Inl err
            \<longrightarrow> sizeof_annotation_terms a ct m anns = Inl err)
   \<and> (\<forall>ls. sizeof_annotation_lines a ct p m anns = Inr ls
            \<longrightarrow> (\<exists>ts. sizeof_annotation_terms a ct m anns = Inr ts
                   \<and> ls = map (\<lambda>lt. ''  encodedSize += '' @ p @ ''->'' @ fst lt
                                    @ '' * sizeof('' @ snd lt @ '');'' @ [CHR 0x0A]) ts))"
proof (induction anns)
  case Nil
  then show ?case by simp
next
  case (Cons an anns)
  show ?case
  proof (cases "is_var_len_array an")
    case False
    with Cons show ?thesis by (cases an) simp_all
  next
    case True
    then obtain l where an: "an = Var_len_array l" by (cases an) auto
    let ?chk = "(if is_nested_type m
            then ebind (nested_entry a m) (\<lambda>(n, e).
                   if has_vla_member e then Inl (NestedVLA (name m) ct) else Inr ())
            else Inr ())"
    show ?thesis
    proof (cases ?chk)
      case (Inl e)
      with an show ?thesis by simp
    next
      case chk: (Inr u)
      show ?thesis
      proof (cases "get_member_type a m True")
        case (Inl e)
        with an chk show ?thesis by simp
      next
        case t: (Inr t)
        show ?thesis
        proof (cases "sizeof_annotation_lines a ct p m anns")
          case (Inl e)
          with Cons an chk t show ?thesis by simp
        next
          case (Inr ls)
          with Cons an chk t show ?thesis by auto
        qed
      qed
    qed
  qed
qed

lemma sizeof_member_terms_text:
  "(\<forall>err. sizeof_member_lines a ct p ms = Inl err \<longrightarrow> sizeof_member_terms a ct ms = Inl err)
   \<and> (\<forall>ls. sizeof_member_lines a ct p ms = Inr ls
            \<longrightarrow> (\<exists>ts. sizeof_member_terms a ct ms = Inr ts
                   \<and> ls = map (\<lambda>lt. ''  encodedSize += '' @ p @ ''->'' @ fst lt
                                    @ '' * sizeof('' @ snd lt @ '');'' @ [CHR 0x0A]) ts))"
proof (induction ms)
  case Nil
  then show ?case by simp
next
  case (Cons m ms)
  note t1 = sizeof_annotation_terms_text [of a ct p m "annotations m"]
  show ?case
  proof (cases "sizeof_annotation_lines a ct p m (annotations m)")
    case (Inl e)
    with t1 show ?thesis by simp
  next
    case l1: (Inr ls1)
    with t1 obtain ts1 where
      t1: "sizeof_annotation_terms a ct m (annotations m) = Inr ts1"
      "ls1 = map (\<lambda>lt. ''  encodedSize += '' @ p @ ''->'' @ fst lt
                                    @ '' * sizeof('' @ snd lt @ '');'' @ [CHR 0x0A]) ts1"
      by auto
    show ?thesis
    proof (cases "sizeof_member_lines a ct p ms")
      case (Inl e)
      with Cons l1 t1 show ?thesis by simp
    next
      case (Inr ls2)
      with Cons l1 t1 show ?thesis by auto
    qed
  qed
qed

lemma sizeof_annotation_terms_fields:
  "sizeof_annotation_terms a ct m anns = Inr ts \<Longrightarrow>
     (vla_length_fields anns = [] \<and> ts = [])
     \<or> (\<exists>t. get_member_type a m True = Inr t \<and> ts = map (\<lambda>l. (l, t)) (vla_length_fields anns))"
proof (induction anns arbitrary: ts)
  case Nil
  then show ?case by simp
next
  case (Cons an anns)
  show ?case
  proof (cases "is_var_len_array an")
    case False
    with Cons show ?thesis by (cases an) simp_all
  next
    case True
    then obtain l where an: "an = Var_len_array l" by (cases an) auto
    from Cons.prems an obtain t ts' where *:
      "get_member_type a m True = Inr t" "sizeof_annotation_terms a ct m anns = Inr ts'"
      "ts = (l, t) # ts'"
      by (auto simp: ebind_Inr_iff)
    from Cons.IH [OF *(2)] * an show ?thesis by auto
  qed
qed

lemma sizeof_member_terms_bytes:
  "sizeof_member_terms a ct ms = Inr ts \<Longrightarrow>
     sum_list (map (term_bytes v p) ts) = sum_list (map (member_vla_bytes a v p) ms)"
proof (induction ms arbitrary: ts)
  case Nil
  then show ?case by simp
next
  case (Cons m ms)
  from Cons.prems obtain ts1 ts2 where t:
    "sizeof_annotation_terms a ct m (annotations m) = Inr ts1"
    "sizeof_member_terms a ct ms = Inr ts2" "ts = ts1 @ ts2"
    by (auto simp: ebind_Inr_iff)
  from sizeof_annotation_terms_fields [OF t(1)]
  have "sum_list (map (term_bytes v p) ts1) = member_vla_bytes a v p m"
    by (auto simp: member_vla_bytes_def term_bytes_def comp_def split: sum.splits)
  with Cons.IH [OF t(2)] t(3) show ?case by simp
qed

lemma arrow_not_encodedSize: "p @ ''->'' @ l \<noteq> ''encodedSize''"
proof
  assume eq: "p @ ''->'' @ l = ''encodedSize''"
  have "CHR ''>'' \<in> set (p @ ''->'' @ l)" by simp
  then have "CHR ''>'' \<in> set ''encodedSize''" unfolding eq .
  then show False by simp
qed

lemma term_bytes_store_arg:
  "term_bytes (vars (store env ''encodedSize'' n s)) p lt = term_bytes (vars s) p lt"
  using arrow_not_encodedSize [of p "fst lt"]
  by (simp add: term_bytes_def store_def)

lemma term_bytes_store:
  "term_bytes (vars (store env ''encodedSize'' n s)) p = term_bytes (vars s) p"
  by (rule ext) (rule term_bytes_store_arg)

lemma exec_add_term:
  "exec env (add_term p lt) s =
     Normal (store env ''encodedSize'' (vars s ''encodedSize'' + term_bytes (vars s) p lt) s)"
  by (simp add: add_term_def term_bytes_def)

lemma vars_store_same: "vars (store env x n s) x = n mod 2 ^ bits env x"
  by (simp add: store_def)

lemma trace_store: "trace (store env x n s) = trace s"
  by (simp add: store_def)

lemma add_terms_run:
  assumes "vars s ''encodedSize'' = acc mod 2 ^ bits env ''encodedSize''"
  shows "\<exists>s'. exec_list env (map (add_term p) ts @ [Return (Atom ''encodedSize'')]) s
         = Returned ((acc + sum_list (map (term_bytes (vars s) p) ts))
                       mod 2 ^ bits env ''encodedSize'') s'
         \<and> trace s' = trace s"
  using assms
proof (induction ts arbitrary: s acc)
  case Nil
  then show ?case by simp
next
  case (Cons lt ts)
  let ?w = "bits env ''encodedSize''"
  let ?x = "term_bytes (vars s) p lt"
  let ?s1 = "store env ''encodedSize'' (vars s ''encodedSize'' + ?x) s"
  have v1: "vars ?s1 ''encodedSize'' = (acc + ?x) mod 2 ^ ?w"
    unfolding vars_store_same Cons.prems by (rule mod_add_left_eq)
  have tb: "map (term_bytes (vars ?s1) p) ts = map (term_bytes (vars s) p) ts"
    by (simp only: term_bytes_store)
  from Cons.IH [OF v1] obtain s' where
    r: "exec_list env (map (add_term p) ts @ [Return (Atom ''encodedSize'')]) ?s1
         = Returned ((acc + ?x + sum_list (map (term_bytes (vars ?s1) p) ts)) mod 2 ^ ?w) s'"
    and k: "trace s' = trace ?s1"
    by blast
  have e: "exec_list env (map (add_term p) (lt # ts) @ [Return (Atom ''encodedSize'')]) s
      = exec_list env (map (add_term p) ts @ [Return (Atom ''encodedSize'')]) ?s1"
    by (simp add: exec_add_term)
  have "exec_list env (map (add_term p) (lt # ts) @ [Return (Atom ''encodedSize'')]) s
        = Returned ((acc + sum_list (map (term_bytes (vars s) p) (lt # ts))) mod 2 ^ ?w) s'"
    unfolding e r tb by (simp add: add.assoc)
  moreover have "trace s' = trace s" unfolding k by (rule trace_store)
  ultimately show ?case by blast
qed

lemma sizeof_function_body_run:
  "\<exists>s'. exec_list env (sizeof_function_body t p ts) s
         = Returned ((vars s (''sizeof('' @ t @ '')'') + sum_list (map (term_bytes (vars s) p) ts))
                       mod 2 ^ bits env ''encodedSize'') s'
       \<and> trace s' = trace s"
proof -
  let ?n = "vars s (''sizeof('' @ t @ '')'')"
  let ?s1 = "store env ''encodedSize'' ?n s"
  have v1: "vars ?s1 ''encodedSize'' = ?n mod 2 ^ bits env ''encodedSize''"
    by (rule vars_store_same)
  have tb: "map (term_bytes (vars ?s1) p) ts = map (term_bytes (vars s) p) ts"
    by (simp only: term_bytes_store)
  from add_terms_run [OF v1, of p ts] obtain s' where
    r: "exec_list env (map (add_term p) ts @ [Return (Atom ''encodedSize'')]) ?s1
         = Returned ((?n + sum_list (map (term_bytes (vars ?s1) p) ts))
                       mod 2 ^ bits env ''encodedSize'') s'"
    and k: "trace s' = trace ?s1"
    by blast
  have e: "exec_list env (sizeof_function_body t p ts) s
      = exec_list env (map (add_term p) ts @ [Return (Atom ''encodedSize'')]) ?s1"
    by (simp add: sizeof_function_body_def)
  have "exec_list env (sizeof_function_body t p ts) s
         = Returned ((?n + sum_list (map (term_bytes (vars s) p) ts))
                       mod 2 ^ bits env ''encodedSize'') s'"
    unfolding e r tb ..
  moreover have "trace s' = trace s" unfolding k by (rule trace_store)
  ultimately show ?thesis by blast
qed

lemma render_list_append: "render_list (xs @ ys) = render_list xs @ render_list ys"
  by (induction xs) simp_all

lemma add_terms_text:
  "squash (concat (map (\<lambda>lt. ''  encodedSize += '' @ p @ ''->'' @ fst lt
                                @ '' * sizeof('' @ snd lt @ '');'' @ [CHR 0x0A]) ts))
   = squash (render_list (map (add_term p) ts))"
  by (induction ts) (simp_all add: add_term_def squash_Cons paren_def)

lemma sizeof_function_text:
  assumes "gen_chpp_sizeof_function a ct = Inr out"
    and "lookup_type a ct = Inr info" "has_vla_member info"
  shows "\<exists>core p t f pre ts.
           strip_prefix_and_service_from_chre_struct_name a ct = Inr core
         \<and> downcase_first core = Inr p
         \<and> get_chpp_type_from_chre a ct = Inr t
         \<and> get_chpp_sizeof_function_name a ct = Inr f
         \<and> get_struct_or_union_prefix a ct = Inr pre
         \<and> sizeof_member_terms a ct (members info) = Inr ts
         \<and> squash (concat out)
             = squash (render_function
                 [sizeof_function_comment ct t, sizeof_function_signature f pre ct p]
                 (sizeof_function_body t p ts))"
proof -
  from assms obtain core p t f pre ls where b:
    "strip_prefix_and_service_from_chre_struct_name a ct = Inr core"
    "downcase_first core = Inr p"
    "get_chpp_type_from_chre a ct = Inr t"
    "get_chpp_sizeof_function_name a ct = Inr f"
    "get_struct_or_union_prefix a ct = Inr pre"
    "sizeof_member_lines a ct p (members info) = Inr ls"
    by (auto simp: gen_chpp_sizeof_function_def ebind_Inr_iff)
  from sizeof_member_terms_text [of a ct p "members info"] b(6) obtain ts where t:
    "sizeof_member_terms a ct (members info) = Inr ts"
    "ls = map (\<lambda>lt. ''  encodedSize += '' @ p @ ''->'' @ fst lt
                       @ '' * sizeof('' @ snd lt @ '');'' @ [CHR 0x0A]) ts"
    by blast
  have o: "out = [''//! @return number of bytes required to represent the given'' @ [CHR 0x0A]
                   @ ''//! '' @ ct @ '' as '' @ t @ [CHR 0x0A],
                 ''static size_t '' @ f @ ''('' @ [CHR 0x0A] @ ''        const '' @ pre
                   @ ct @ '' *'' @ p @ '') {'' @ [CHR 0x0A],
                 ''  size_t encodedSize = sizeof('' @ t @ '');'' @ [CHR 0x0A]]
                @ ls @ [''  return encodedSize;'' @ [CHR 0x0A] @ ''}'' @ [CHR 0x0A, CHR 0x0A]]"
    using assms b by (simp add: gen_chpp_sizeof_function_def)
  have l: "squash (concat ls) = squash (render_list (map (add_term p) ts))"
    unfolding t(2) by (rule add_terms_text)
  have sq: "squash (concat out)
             = squash (render_function
                 [sizeof_function_comment ct t, sizeof_function_signature f pre ct p]
                 (sizeof_function_body t p ts))"
    unfolding o
    by (simp add: render_function_def sizeof_function_body_def sizeof_function_comment_def
        sizeof_function_signature_def render_list_append l squash_Cons)
  show ?thesis
    by (intro exI conjI) (rule b(1), rule b(2), rule b(3), rule b(4), rule b(5), rule t(1), rule sq)
qed

lemma gen_chpp_sizeof_functions_loop_part:
  assumes "gen_chpp_sizeof_functions_loop a rs = Inr outs" "r \<in> set rs"
  shows "\<exists>out before after. gen_chpp_sizeof_function a r = Inr out
           \<and> outs = before @ out @ after"
  using assms
proof (induction rs arbitrary: outs)
  case Nil
  then show ?case by simp
next
  case (Cons x rs)
  from Cons.prems(1) obtain o1 os where s:
    "gen_chpp_sizeof_function a x = Inr o1" "gen_chpp_sizeof_functions_loop a rs = Inr os"
    "outs = o1 @ os"
    by (auto simp: ebind_Inr_iff)
  show ?case
  proof (cases "r = x")
    case True
    with s have "gen_chpp_sizeof_function a r = Inr o1 \<and> outs = [] @ o1 @ os" by simp
    then show ?thesis by blast
  next
    case False
    with Cons.prems(2) have "r \<in> set rs" by simp
    from Cons.IH [OF s(2) this] obtain out before after where
      "gen_chpp_sizeof_function a r = Inr out" "os = before @ out @ after" by blast
    with s(3) have "gen_chpp_sizeof_function a r = Inr out \<and> outs = (o1 @ before) @ out @ after"
      by simp
    then show ?thesis by blast
  qed
qed

lemma sizeof_member_terms_resolve:
  "sizeof_member_terms a ct ms = Inr ts \<Longrightarrow>
     \<forall>m \<in> set ms. vla_length_fields (annotations m) \<noteq> []
        \<longrightarrow> (\<exists>et. get_member_type a m True = Inr et)"
proof (induction ms arbitrary: ts)
  case Nil
  then show ?case by simp
next
  case (Cons m ms)
  from Cons.prems obtain ts1 ts2 where t:
    "sizeof_annotation_terms a ct m (annotations m) = Inr ts1"
    "sizeof_member_terms a ct ms = Inr ts2"
    by (auto simp: ebind_Inr_iff)
  from sizeof_annotation_terms_fields [OF t(1)] Cons.IH [OF t(2)] show ?case by auto
qed

lemma get_chpp_sizeof_call_cases:
  assumes "get_chpp_sizeof_call a ct = Inr call" "lookup_type a ct = Inr info"
  shows "if has_vla_member info
         then \<exists>f. get_chpp_sizeof_function_name a ct = Inr f \<and> call = f @ ''(in)''
         else \<exists>t. get_chpp_type_from_chre a ct = Inr t \<and> call = ''sizeof('' @ t @ '')''"
  using assms by (auto simp: get_chpp_sizeof_call_def ebind_Inr_iff)

text \<open>
  C6. For a root type for which the size functions are generated, the size that the
  generated code computes (the expression that \<open>_get_chpp_sizeof_call\<close> prints in the
  allocation entry point) is: for a type without the variable-length flag, the plain
  \<open>sizeof\<close> of the generated type, and no size function is printed; for a type with the
  flag, a call of the size function printed for it, whose body returns, for every
  environment and state, the \<open>sizeof\<close> of the generated type plus, for every member and
  every \<open>var_len_array\<close> annotation of it, the value of the length field in the instance
  times the \<open>sizeof\<close> of the element type (\<open>encoded_size\<close>), as a value of the type
  \<open>size_t\<close> of \<open>encodedSize\<close>, and changes nothing else that is observed. The element type
  of every such member resolves.
\<close>

theorem encoded_size_is_static_plus_arrays:
  assumes "gen_chpp_sizeof_functions a = Inr outs"
    and "chre_type \<in> set (root_structs a)"
    and "get_chpp_sizeof_call a chre_type = Inr call"
  shows "\<exists>info out before after.
           lookup_type a chre_type = Inr info
         \<and> gen_chpp_sizeof_function a chre_type = Inr out \<and> outs = before @ out @ after
         \<and> (if \<not> has_vla_member info
            then out = []
               \<and> (\<exists>t. get_chpp_type_from_chre a chre_type = Inr t
                      \<and> call = ''sizeof('' @ t @ '')'')
            else \<exists>core p t f pre ts.
                   strip_prefix_and_service_from_chre_struct_name a chre_type = Inr core
                 \<and> downcase_first core = Inr p
                 \<and> get_chpp_type_from_chre a chre_type = Inr t
                 \<and> get_chpp_sizeof_function_name a chre_type = Inr f
                 \<and> get_struct_or_union_prefix a chre_type = Inr pre
                 \<and> sizeof_member_terms a chre_type (members info) = Inr ts
                 \<and> call = f @ ''(in)''
                 \<and> squash (concat out)
                     = squash (render_function
                         [sizeof_function_comment chre_type t,
                          sizeof_function_signature f pre chre_type p]
                         (sizeof_function_body t p ts))
                 \<and> (\<forall>m \<in> set (members info). vla_length_fields (annotations m) \<noteq> []
                        \<longrightarrow> (\<exists>et. get_member_type a m True = Inr et))
                 \<and> (\<forall>env s. \<exists>s'. exec_list env (sizeof_function_body t p ts) s
                         = Returned (encoded_size a info t p (vars s)
                                       mod 2 ^ bits env ''encodedSize'') s'
                       \<and> trace s' = trace s))"
proof -
  from gen_chpp_sizeof_functions_loop_part [OF assms(1) [unfolded gen_chpp_sizeof_functions_def]
      assms(2)]
  obtain out before after where
    o: "gen_chpp_sizeof_function a chre_type = Inr out" "outs = before @ out @ after"
    by blast
  from o(1) obtain info where i: "lookup_type a chre_type = Inr info"
    by (auto simp: gen_chpp_sizeof_function_def ebind_Inr_iff)
  note c = get_chpp_sizeof_call_cases [OF assms(3) i]
  have "if \<not> has_vla_member info
            then out = []
               \<and> (\<exists>t. get_chpp_type_from_chre a chre_type = Inr t
                      \<and> call = ''sizeof('' @ t @ '')'')
            else \<exists>core p t f pre ts.
                   strip_prefix_and_service_from_chre_struct_name a chre_type = Inr core
                 \<and> downcase_first core = Inr p
                 \<and> get_chpp_type_from_chre a chre_type = Inr t
                 \<and> get_chpp_sizeof_function_name a chre_type = Inr f
                 \<and> get_struct_or_union_prefix a chre_type = Inr pre
                 \<and> sizeof_member_terms a chre_type (members info) = Inr ts
                 \<and> call = f @ ''(in)''
                 \<and> squash (concat out)
                     = squash (render_function
                         [sizeof_function_comment chre_type t,
                          sizeof_function_signature f pre chre_type p]
                         (sizeof_function_body t p ts))
                 \<and> (\<forall>m \<in> set (members info). vla_length_fields (annotations m) \<noteq> []
                        \<longrightarrow> (\<exists>et. get_member_type a m True = Inr et))
                 \<and> (\<forall>env s. \<exists>s'. exec_list env (sizeof_function_body t p ts) s
                         = Returned (encoded_size a info t p (vars s)
                                       mod 2 ^ bits env ''encodedSize'') s'
                       \<and> trace s' = trace s)"
  proof (cases "has_vla_member info")
    case False
    with o(1) i have "out = []" by (simp add: gen_chpp_sizeof_function_def)
    with c False show ?thesis by simp
  next
    case True
    from sizeof_function_text [OF o(1) i True] obtain core p t f pre ts where g:
      "strip_prefix_and_service_from_chre_struct_name a chre_type = Inr core"
      "downcase_first core = Inr p"
      "get_chpp_type_from_chre a chre_type = Inr t"
      "get_chpp_sizeof_function_name a chre_type = Inr f"
      "get_struct_or_union_prefix a chre_type = Inr pre"
      "sizeof_member_terms a chre_type (members info) = Inr ts"
      "squash (concat out)
         = squash (render_function
             [sizeof_function_comment chre_type t, sizeof_function_signature f pre chre_type p]
             (sizeof_function_body t p ts))"
      by blast
    from c True g(4) have call: "call = f @ ''(in)''" by simp
    note res = sizeof_member_terms_resolve [OF g(6)]
    have run: "\<forall>env s. \<exists>s'. exec_list env (sizeof_function_body t p ts) s
                         = Returned (encoded_size a info t p (vars s)
                                       mod 2 ^ bits env ''encodedSize'') s'
                       \<and> trace s' = trace s"
      unfolding encoded_size_def sizeof_member_terms_bytes [OF g(6), symmetric]
      by (intro allI) (rule sizeof_function_body_run)
    have "\<exists>core p t f pre ts.
                   strip_prefix_and_service_from_chre_struct_name a chre_type = Inr core
                 \<and> downcase_first core = Inr p
                 \<and> get_chpp_type_from_chre a chre_type = Inr t
                 \<and> get_chpp_sizeof_function_name a chre_type = Inr f
                 \<and> get_struct_or_union_prefix a chre_type = Inr pre
                 \<and> sizeof_member_terms a chre_type (members info) = Inr ts
                 \<and> call = f @ ''(in)''
                 \<and> squash (concat out)
                     = squash (render_function
                         [sizeof_function_comment chre_type t,
                          sizeof_function_signature f pre chre_type p]
                         (sizeof_function_body t p ts))
                 \<and> (\<forall>m \<in> set (members info). vla_length_fields (annotations m) \<noteq> []
                        \<longrightarrow> (\<exists>et. get_member_type a m True = Inr et))
                 \<and> (\<forall>env s. \<exists>s'. exec_list env (sizeof_function_body t p ts) s
                         = Returned (encoded_size a info t p (vars s)
                                       mod 2 ^ bits env ''encodedSize'') s'
                       \<and> trace s' = trace s)"
      by (intro exI conjI)
        (rule g(1), rule g(2), rule g(3), rule g(4), rule g(5), rule g(6), rule call,
          rule g(7), rule res, rule run)
    with True show ?thesis by simp
  qed
  with i o show ?thesis by blast
qed

lemma ex_inner_root_generated:
  "gen_chpp_sizeof_functions ex_inner_root_api
     = Inr [''//! @return number of bytes required to represent the given'' @ [CHR 0x0A]
              @ ''//! chreFooInner as struct ChppFooInner'' @ [CHR 0x0A],
            ''static size_t chppFooSizeOfInnerFromChre('' @ [CHR 0x0A]
              @ ''        const struct chreFooInner *inner) {'' @ [CHR 0x0A],
            ''  size_t encodedSize = sizeof(struct ChppFooInner);'' @ [CHR 0x0A],
            ''  encodedSize += inner->n * sizeof(uint8_t);'' @ [CHR 0x0A],
            ''  return encodedSize;'' @ [CHR 0x0A] @ ''}'' @ [CHR 0x0A, CHR 0x0A]]"
  unfolding ex_inner_root_api_def ex_nested_api_def ex_nested_outer_def ex_nested_inner_def
    ex_nested_items_def
  by code_simp

lemma ex_inner_root_call:
  "get_chpp_sizeof_call ex_inner_root_api ''chreFooInner''
     = Inr ''chppFooSizeOfInnerFromChre(in)''"
  unfolding ex_inner_root_api_def ex_nested_api_def ex_nested_outer_def ex_nested_inner_def
    ex_nested_items_def
  by code_simp

lemma ex_inner_root_parts:
  "lookup_type ex_inner_root_api ''chreFooInner'' = Inr ex_nested_inner
   \<and> strip_prefix_and_service_from_chre_struct_name ex_inner_root_api ''chreFooInner''
       = Inr ''Inner''
   \<and> downcase_first ''Inner'' = Inr ''inner''
   \<and> get_chpp_type_from_chre ex_inner_root_api ''chreFooInner'' = Inr ''struct ChppFooInner''
   \<and> sizeof_member_terms ex_inner_root_api ''chreFooInner'' (members ex_nested_inner)
       = Inr [(''n'', ''uint8_t'')]"
  unfolding ex_inner_root_api_def ex_nested_api_def ex_nested_outer_def ex_nested_inner_def
    ex_nested_items_def
  by code_simp

lemma ex_inner_root_member_types:
  "map (\<lambda>m. get_member_type ex_inner_root_api m True) (members ex_nested_inner)
     = [Inr ''uint8_t'', Inr ''uint8_t'']"
  unfolding ex_inner_root_api_def ex_nested_api_def ex_nested_outer_def ex_nested_inner_def
    ex_nested_items_def
  by code_simp

lemma ex_inner_root_size:
  "encoded_size ex_inner_root_api ex_nested_inner ''struct ChppFooInner'' ''inner''
     (vars ex_size_state) = 15"
proof -
  have m: "members ex_nested_inner =
     [\<lparr> name = ''n'', ctype = \<lparr> type_spec = ''uint8_t'', declarators = [] \<rparr>,
        annotations = [], is_nested_type = False, nested_type_name = None \<rparr>,
      \<lparr> name = ''data'',
        ctype = \<lparr> type_spec = ''uint8_t'', declarators = [PointerDecl] \<rparr>,
        annotations = [Var_len_array ''n''], is_nested_type = False,
        nested_type_name = None \<rparr>]"
    by (simp add: ex_nested_inner_def)
  from ex_inner_root_member_types [unfolded m]
  show ?thesis
    unfolding encoded_size_def m
    by (simp add: member_vla_bytes_def ex_size_state_def ex_state_def)
qed

text \<open>
  The theorem at the inner example structure as the only root: 3 bytes of layout and
  12 elements of 1 byte.
\<close>

theorem encoded_size_witness:
  "(\<exists>outs. gen_chpp_sizeof_functions ex_inner_root_api = Inr outs)
   \<and> ''chreFooInner'' \<in> set (root_structs ex_inner_root_api)
   \<and> get_chpp_sizeof_call ex_inner_root_api ''chreFooInner''
       = Inr ''chppFooSizeOfInnerFromChre(in)''
   \<and> has_vla_member ex_nested_inner
   \<and> (\<exists>s'. exec_list (ex_env False)
              (sizeof_function_body ''struct ChppFooInner'' ''inner'' [(''n'', ''uint8_t'')])
              ex_size_state
            = Returned 15 s' \<and> trace s' = [])"
proof -
  have mem: "''chreFooInner'' \<in> set (root_structs ex_inner_root_api)"
    by (simp add: ex_inner_root_api_def)
  have flag: "has_vla_member ex_nested_inner" by (simp add: ex_nested_inner_def)
  note p = ex_inner_root_parts
  from encoded_size_is_static_plus_arrays [OF ex_inner_root_generated mem ex_inner_root_call]
  obtain info where i: "lookup_type ex_inner_root_api ''chreFooInner'' = Inr info"
    and c: "\<not> has_vla_member info \<or>
      (\<exists>core p t ts.
          strip_prefix_and_service_from_chre_struct_name ex_inner_root_api ''chreFooInner''
            = Inr core
        \<and> downcase_first core = Inr p
        \<and> get_chpp_type_from_chre ex_inner_root_api ''chreFooInner'' = Inr t
        \<and> sizeof_member_terms ex_inner_root_api ''chreFooInner'' (members info) = Inr ts
        \<and> (\<forall>env s. \<exists>s'. exec_list env (sizeof_function_body t p ts) s
                         = Returned (encoded_size ex_inner_root_api info t p (vars s)
                                       mod 2 ^ bits env ''encodedSize'') s'
                       \<and> trace s' = trace s))"
    by (auto split: if_splits)
  from i p have info: "info = ex_nested_inner" by simp
  from c flag obtain core p' t ts where g:
    "strip_prefix_and_service_from_chre_struct_name ex_inner_root_api ''chreFooInner''
       = Inr core"
    "downcase_first core = Inr p'"
    "get_chpp_type_from_chre ex_inner_root_api ''chreFooInner'' = Inr t"
    "sizeof_member_terms ex_inner_root_api ''chreFooInner'' (members ex_nested_inner) = Inr ts"
    and run: "\<forall>env s. \<exists>s'. exec_list env (sizeof_function_body t p' ts) s
                 = Returned (encoded_size ex_inner_root_api ex_nested_inner t p' (vars s)
                               mod 2 ^ bits env ''encodedSize'') s'
               \<and> trace s' = trace s"
    unfolding info by blast
  from g p have e: "core = ''Inner''" "t = ''struct ChppFooInner''" "ts = [(''n'', ''uint8_t'')]"
    by simp_all
  from g(2) p have e2: "p' = ''inner''" unfolding e by simp
  from run [unfolded e e2, rule_format, of "ex_env False" ex_size_state]
  obtain s' where r: "exec_list (ex_env False)
              (sizeof_function_body ''struct ChppFooInner'' ''inner'' [(''n'', ''uint8_t'')])
              ex_size_state
            = Returned (encoded_size ex_inner_root_api ex_nested_inner ''struct ChppFooInner''
                          ''inner'' (vars ex_size_state)
                        mod 2 ^ bits (ex_env False) ''encodedSize'') s'"
    and k: "trace s' = trace ex_size_state"
    by blast
  have b: "(15::nat) mod 2 ^ bits (ex_env False) ''encodedSize'' = 15"
    by (simp add: ex_env_def)
  have k': "trace s' = []" unfolding k by (simp add: ex_size_state_def ex_state_def)
  from r [unfolded ex_inner_root_size b] k'
  have "\<exists>s'. exec_list (ex_env False)
              (sizeof_function_body ''struct ChppFooInner'' ''inner'' [(''n'', ''uint8_t'')])
              ex_size_state
            = Returned 15 s' \<and> trace s' = []"
    by blast
  with mem flag ex_inner_root_call ex_inner_root_generated show ?thesis by simp
qed

subsection \<open>Pointer members without an annotation\<close>

text \<open>
  C1 (as amended). A member whose type is a pointer and that carries neither a
  \<open>rewrite_type\<close> nor a \<open>var_len_array\<close> annotation is rejected when its type is
  resolved for the definition of the structure: \<open>_get_member_type\<close> raises the error that
  carries the member's descriptor, so the definition of every type that has such a member
  is not generated, and the error is that of the first such member when the type's name
  and the members before it resolve. The graph builder never raises this error: it does
  not look at declarators, and what it raises is an unknown type (or a missing key).
\<close>

theorem unannotated_pointer_rejected_in_header_generation:
  assumes "is_pointer_type (ctype m)"
    and "\<forall>an \<in> set (annotations m). \<not> is_rewrite_type an \<and> \<not> is_var_len_array an"
  shows "get_member_type a m False = Inl (PointerRequiresAnnotation m)
     \<and> (\<forall>n e. map_of (structs_and_unions a) n = Some e \<and> m \<in> set (members e)
            \<longrightarrow> (\<exists>err. gen_struct_or_union a n = Inl err))
     \<and> (\<forall>n e t ms1 ms2 ls.
            map_of (structs_and_unions a) n = Some e \<and> members e = ms1 @ m # ms2
            \<and> get_chpp_type_from_chre a n = Inr t \<and> gen_member_lines a ms1 = Inr ls
            \<longrightarrow> gen_struct_or_union a n = Inl (PointerRequiresAnnotation m))
     \<and> (\<forall>enum p ann roots m'.
            parse_structs_and_unions enum p ann roots \<noteq> Some (Inl (PointerRequiresAnnotation m')))"
proof (intro conjI allI impI)
  show t: "get_member_type a m False = Inl (PointerRequiresAnnotation m)"
    using assms by (rule get_member_type_pointer)
  then have line: "gen_member_line a m = Inl (PointerRequiresAnnotation m)"
    by (simp add: gen_member_line_def)
  {
    fix n e
    assume h: "map_of (structs_and_unions a) n = Some e \<and> m \<in> set (members e)"
    then obtain err' where "gen_member_lines a (members e) = Inl err'"
      using gen_member_lines_fails [OF _ line] by blast
    with h show "\<exists>err. gen_struct_or_union a n = Inl err"
      by (cases "get_chpp_type_from_chre a n")
         (simp_all add: gen_struct_or_union_def lookup_type_def Let_def)
  }
  {
    fix n e t ms1 ms2 ls
    assume h: "map_of (structs_and_unions a) n = Some e \<and> members e = ms1 @ m # ms2
            \<and> get_chpp_type_from_chre a n = Inr t \<and> gen_member_lines a ms1 = Inr ls"
    then have "gen_member_lines a (members e) = Inl (PointerRequiresAnnotation m)"
      using gen_member_lines_first_failure [OF _ line] by simp
    with h show "gen_struct_or_union a n = Inl (PointerRequiresAnnotation m)"
      by (simp add: gen_struct_or_union_def lookup_type_def Let_def)
  }
  {
    fix enum p ann roots m'
    show "parse_structs_and_unions enum p ann roots \<noteq> Some (Inl (PointerRequiresAnnotation m'))"
      using parse_structs_and_unions_error [of enum p ann roots "PointerRequiresAnnotation m'"]
      by auto
  }
qed


text \<open>The theorem at the example structure, whose member \<open>data\<close> is a plain pointer.\<close>

theorem unannotated_pointer_witness:
  "is_pointer_type (ctype ex_pointer_member) \<and> annotations ex_pointer_member = []
   \<and> get_member_type ex_pointer_api ex_pointer_member False
        = Inl (PointerRequiresAnnotation ex_pointer_member)
   \<and> gen_struct_or_union ex_pointer_api ''chreFooBar''
        = Inl (PointerRequiresAnnotation ex_pointer_member)"
proof -
  have p: "is_pointer_type (ctype ex_pointer_member)"
    by (simp add: ex_pointer_member_def is_pointer_type_def)
  have e: "annotations ex_pointer_member = []"
    by (simp add: ex_pointer_member_def)
  then have n: "\<forall>an \<in> set (annotations ex_pointer_member).
                  \<not> is_rewrite_type an \<and> \<not> is_var_len_array an"
    by simp
  note main = unannotated_pointer_rejected_in_header_generation [OF p n, of ex_pointer_api]
  have m: "map_of (structs_and_unions ex_pointer_api) ''chreFooBar'' = Some ex_pointer_entry"
    by (simp add: ex_pointer_api_def)
  have ms: "members ex_pointer_entry
        = [\<lparr> name = ''count'', ctype = \<lparr> type_spec = ''uint8_t'', declarators = [] \<rparr>,
                    annotations = [], is_nested_type = False, nested_type_name = None \<rparr>]
          @ ex_pointer_member # []"
    by (simp add: ex_pointer_entry_def)
  have t: "get_chpp_type_from_chre ex_pointer_api ''chreFooBar'' = Inr ''struct ChppFooBar''"
    unfolding ex_pointer_api_def ex_pointer_entry_def ex_pointer_member_def by code_simp
  have l: "gen_member_lines ex_pointer_api
             [\<lparr> name = ''count'', ctype = \<lparr> type_spec = ''uint8_t'', declarators = [] \<rparr>,
                    annotations = [], is_nested_type = False, nested_type_name = None \<rparr>]
           = Inr [''  uint8_t count;'' @ [CHR 0x0A]]"
    unfolding ex_pointer_api_def ex_pointer_entry_def ex_pointer_member_def by code_simp
  from main m ms t l p e show ?thesis by blast
qed


text \<open>
  C1 as the specification states it fails: for the example structure the graph is built
  without an error, with the pointer member in it, and the error is raised only when the
  structure definitions are generated from that graph.
\<close>

theorem pointer_field_passes_graph_construction:
  "parse_structs_and_unions sorted_list_of_set ex_pointer_defs (parse_annotations [])
       [''chreFooBar'']
     = Some (Inr [(''chreFooBar'', ex_pointer_entry)])
   \<and> ex_pointer_member \<in> set (members ex_pointer_entry)
   \<and> is_pointer_type (ctype ex_pointer_member)
   \<and> annotations ex_pointer_member = []
   \<and> gen_structs_and_unions ex_pointer_api
     = Some (Inl (PointerRequiresAnnotation ex_pointer_member))"
  unfolding ex_pointer_api_def ex_pointer_entry_def ex_pointer_member_def ex_pointer_defs_def
  by code_simp


subsection \<open>The order of the definitions\<close>

text \<open>
  C5 fails on the code. With two root structures of which the second has a member of
  the first's type, the first is listed twice: a root is never put into \<open>visited\<close>, so it
  is appended once as a root and once more as a dependency. The graph is the one the parser
  builds for these declarations, and the definition of the first structure is generated
  twice.
\<close>

theorem sorted_structs_lists_root_twice:
  "parse_structs_and_unions sorted_list_of_set ex_two_roots_defs (parse_annotations [])
       [''chreFooA'', ''chreFooB'']
     = Some (Inr ex_two_roots_graph)
   \<and> sorted_structs ex_two_roots_api [''chreFooA'', ''chreFooB'']
     = Some (Inr [''chreFooA'', ''chreFooA'', ''chreFooB''])
   \<and> \<not> distinct [''chreFooA'', ''chreFooA'', ''chreFooB'']"
  unfolding ex_two_roots_api_def ex_two_roots_graph_def ex_two_roots_defs_def
  by code_simp

end
